theory Spec2Isabelle
  imports Main
begin

section \<open>Terminal Racer: a model of main.cpp\<close>

text \<open>
  The program keeps its game state in global variables and talks to four parts of its
  environment: the C library's \<^verbatim>\<open>rand()\<close>, the terminal (standard input and
  standard output), the monotonic clock and the file \<^verbatim>\<open>highscore.txt\<close>.
  The model puts the globals and the environment into one record, \<open>world\<close>, and
  every function of the source becomes a function from worlds to worlds.  The POSIX
  branch of each \<^verbatim>\<open>#ifdef _WIN32\<close> is the one modelled.

  The C++ types \<^verbatim>\<open>int\<close> and \<^verbatim>\<open>long long\<close> are modelled by \<open>int\<close>.
  Signed overflow has no defined behaviour in C++, so the model and the program agree
  as long as no value leaves its type's range; lemma \<open>field_ok_rows\<close> below shows that
  between the iterations of a run the rows are between 1 and 20 and the columns
  between 2 and 21 (inside a tick a row can be 21).
\<close>

subsection \<open>Configuration\<close>

definition TRACK_WIDTH :: int where
  "TRACK_WIDTH = 20"

definition SCREEN_HEIGHT :: int where
  "SCREEN_HEIGHT = 20"

definition START_PLAYER_X :: int where
  "START_PLAYER_X = TRACK_WIDTH div 2 + 1"

subsection \<open>Global game state and environment\<close>

record Car =
  x :: int
  y :: int

record world =
  obstacles :: "Car list"
  playerX :: int
  score :: int
  gameOver :: bool
  highestScore :: int
  difficultyLevel :: int
  moveLeftKey :: string
  moveRightKey :: string
  rand_src :: "nat \<Rightarrow> nat"
  rand_pos :: nat
  tty_buf :: string
  tty_arrivals :: "nat \<Rightarrow> string"
  sleeps :: nat
  slept_ms :: nat
  clock_src :: "nat \<Rightarrow> int"
  clock_pos :: nat
  out :: string
  hs_file :: "string option"
  hs_writable :: bool

text \<open>
  The first eight fields are the program's global variables.  The others are the
  environment:
  \<^item> \<open>rand_src\<close>, \<open>rand_pos\<close>: the sequence of values \<^verbatim>\<open>rand()\<close> returns and how
    many of them have been drawn;
  \<^item> \<open>tty_buf\<close>: the bytes waiting on standard input; \<open>tty_arrivals k\<close>: the bytes
    that arrive while the program sleeps for the \<open>k\<close>-th time; \<open>sleeps\<close> and
    \<open>slept_ms\<close>: the number of calls of \<^verbatim>\<open>sleep_for\<close> and the milliseconds asked for;
  \<^item> \<open>clock_src\<close>, \<open>clock_pos\<close>: the readings of \<^verbatim>\<open>steady_clock::now()\<close>, in
    nanoseconds, and how many have been taken;
  \<^item> \<open>out\<close>: the bytes written to standard output;
  \<^item> \<open>hs_file\<close>: the content of \<^verbatim>\<open>highscore.txt\<close>, \<open>None\<close> when it cannot be
    opened for reading; \<open>hs_writable\<close>: whether it can be opened for writing.
\<close>

text \<open>
  \<^verbatim>\<open>rand()\<close> returns the next value of a sequence fixed by the seed; the value is
  never negative.  \<open>rand_src\<close> is that sequence and \<open>rand_pos\<close> the number of
  values drawn so far.
\<close>

definition rand :: "world \<Rightarrow> int \<times> world" where
  "rand w = (int (rand_src w (rand_pos w)), w\<lparr>rand_pos := Suc (rand_pos w)\<rparr>)"

subsection \<open>Terminal utilities\<close>

definition ESC :: char where
  "ESC = CHR 0x1B"

definition cout :: "string \<Rightarrow> world \<Rightarrow> world" where
  "cout s w = w\<lparr>out := out w @ s\<rparr>"

text \<open>
  \<^verbatim>\<open>operator<<\<close> for \<^verbatim>\<open>int\<close> and \<^verbatim>\<open>long long\<close>: decimal digits, with a minus
  sign for a negative value.
\<close>

definition digit_char :: "nat \<Rightarrow> char" where
  "digit_char d = char_of (48 + d)"

fun show_nat :: "nat \<Rightarrow> string" where
  "show_nat n = (if n < 10 then [digit_char n] else show_nat (n div 10) @ [digit_char (n mod 10)])"

declare show_nat.simps [simp del]

definition show_int :: "int \<Rightarrow> string" where
  "show_int i = (if i < 0 then CHR ''-'' # show_nat (nat (- i)) else show_nat (nat i))"

definition CLEAR_SCREEN :: string where
  "CLEAR_SCREEN = [ESC] @ ''[2J'' @ [ESC] @ ''[1;1H''"

definition gotoxy :: "int \<Rightarrow> int \<Rightarrow> world \<Rightarrow> world" where
  "gotoxy yy xx w = cout ([ESC] @ ''['' @ show_int yy @ '';'' @ show_int xx @ ''H'') w"

definition hideCursor :: "world \<Rightarrow> world" where
  "hideCursor w = cout ([ESC] @ ''[?25l'') w"

text \<open>
  \<^verbatim>\<open>sleep_for\<close>: the only place where time passes for the terminal, so the bytes typed
  meanwhile join the pending input here.
\<close>

definition sleep_for :: "nat \<Rightarrow> world \<Rightarrow> world" where
  "sleep_for ms w =
     w\<lparr>tty_buf := tty_buf w @ tty_arrivals w (sleeps w),
       sleeps := Suc (sleeps w),
       slept_ms := slept_ms w + ms\<rparr>"

text \<open>
  \<^verbatim>\<open>steady_clock::now()\<close> and \<^verbatim>\<open>duration_cast<milliseconds>\<close>, which truncates
  towards zero.
\<close>

definition steady_clock_now :: "world \<Rightarrow> int \<times> world" where
  "steady_clock_now w = (clock_src w (clock_pos w), w\<lparr>clock_pos := Suc (clock_pos w)\<rparr>)"

definition duration_cast_ms :: "int \<Rightarrow> int" where
  "duration_cast_ms d = (if d < 0 then - ((- d) div 1000000) else d div 1000000)"

subsection \<open>Reading a key\<close>

text \<open>
  The wait loop of \<^verbatim>\<open>getInputSequence\<close> (lines 201 to 212), entered after an escape
  byte: \<^verbatim>\<open>FIONREAD\<close> gives the number of pending bytes; when there are some, up to 9
  of them are read and the loop is left; otherwise the program sleeps 8 ms.
\<close>

function getInputSequence_wait :: "int \<Rightarrow> string \<Rightarrow> world \<Rightarrow> string \<times> world" where
  "getInputSequence_wait waited res w =
     (if waited < 100
      then (let bytesAvailable = int (length (tty_buf w))
            in if bytesAvailable > 0
               then (let r2 = nat (min bytesAvailable 9)
                     in (res @ take r2 (tty_buf w), w\<lparr>tty_buf := drop r2 (tty_buf w)\<rparr>))
               else getInputSequence_wait (waited + 8) res (sleep_for 8 w))
      else (res, w))"
  by pat_completeness auto
termination
  by (relation "measure (\<lambda>(waited, res, w). nat (100 - waited))") auto

declare getInputSequence_wait.simps [simp del]

text \<open>
  \<^verbatim>\<open>getInputSequence\<close>: \<^verbatim>\<open>select\<close> with a zero timeout says whether a byte is
  pending; one byte is read; an escape byte starts the wait loop.
\<close>

definition getInputSequence :: "world \<Rightarrow> string \<times> world" where
  "getInputSequence w =
     (if tty_buf w \<noteq> []
      then (let c = hd (tty_buf w);
                w1 = w\<lparr>tty_buf := tl (tty_buf w)\<rparr>;
                res = [c]
            in if c = ESC then getInputSequence_wait 0 res w1 else (res, w1))
      else ([], w))"

text \<open>
  \<^verbatim>\<open>isprint\<close> in the C locale, and \<^verbatim>\<open>std::hex << std::uppercase\<close> for a byte.
\<close>

definition isprint :: "char \<Rightarrow> bool" where
  "isprint c = (32 \<le> (of_char c :: nat) \<and> (of_char c :: nat) \<le> 126)"

definition hex_digit :: "nat \<Rightarrow> char" where
  "hex_digit d = (if d < 10 then char_of (48 + d) else char_of (55 + d))"

fun show_hex :: "nat \<Rightarrow> string" where
  "show_hex n = (if n < 16 then [hex_digit n] else show_hex (n div 16) @ [hex_digit (n mod 16)])"

declare show_hex.simps [simp del]

definition keyToDisplay :: "string \<Rightarrow> string" where
  "keyToDisplay k =
     (if k = [] then ''NONE''
      else if k = [ESC, CHR ''['', CHR ''A''] then ''UP_ARROW''
      else if k = [ESC, CHR ''['', CHR ''B''] then ''DOWN_ARROW''
      else if k = [ESC, CHR ''['', CHR ''C''] then ''RIGHT_ARROW''
      else if k = [ESC, CHR ''['', CHR ''D''] then ''LEFT_ARROW''
      else if k = [CHR 0x0A] \<or> k = [CHR 0x0D] then ''ENTER''
      else if k = '' '' then ''SPACE''
      else if k = [CHR 0x09] then ''TAB''
      else if length k = 1 \<and> isprint (hd k) then [hd k]
      else ''SEQ('' @ concat (map (\<lambda>ch. ''0x'' @ show_hex (of_char ch) @ '' '') k) @ '')'')"

subsection \<open>High score persistence\<close>

text \<open>
  \<^verbatim>\<open>file >> highestScore\<close>, the formatted extraction of a \<^verbatim>\<open>long long\<close> as the C++
  standard library defines it: leading white space is skipped; when the file ends
  there, nothing is stored; otherwise an optional sign and the longest run of decimal
  digits are read; without a digit the value stored is 0, and a value out of range is
  replaced by the nearest bound.
\<close>

definition LLONG_MAX :: int where
  "LLONG_MAX = 9223372036854775807"

definition LLONG_MIN :: int where
  "LLONG_MIN = - 9223372036854775808"

definition isspace :: "char \<Rightarrow> bool" where
  "isspace c = ((of_char c :: nat) = 32 \<or> (9 \<le> (of_char c :: nat) \<and> (of_char c :: nat) \<le> 13))"

definition isdigit :: "char \<Rightarrow> bool" where
  "isdigit c = (48 \<le> (of_char c :: nat) \<and> (of_char c :: nat) \<le> 57)"

definition digits_val :: "string \<Rightarrow> nat" where
  "digits_val ds = foldl (\<lambda>acc c. 10 * acc + (of_char c - 48)) 0 ds"

definition extract_ll :: "string \<Rightarrow> int \<Rightarrow> int" where
  "extract_ll content cur =
     (let s = dropWhile isspace content
      in if s = [] then cur
         else (let neg = (hd s = CHR ''-'');
                   s1 = (if hd s = CHR ''-'' \<or> hd s = CHR ''+'' then tl s else s);
                   ds = takeWhile isdigit s1;
                   v = (if neg then - int (digits_val ds) else int (digits_val ds))
               in if ds = [] then 0
                  else if v > LLONG_MAX then LLONG_MAX
                  else if v < LLONG_MIN then LLONG_MIN
                  else v))"

definition loadHighestScore :: "world \<Rightarrow> world" where
  "loadHighestScore w =
     (case hs_file w of
        Some content \<Rightarrow> w\<lparr>highestScore := extract_ll content (highestScore w)\<rparr>
      | None \<Rightarrow> w)"

definition saveHighestScore :: "world \<Rightarrow> world" where
  "saveHighestScore w =
     (if score w > highestScore w
      then (let w1 = w\<lparr>highestScore := score w\<rparr>
            in if hs_writable w1
               then w1\<lparr>hs_file := Some (show_int (highestScore w1))\<rparr>
               else w1)
      else w)"

subsection \<open>Game logic\<close>

text \<open>
  \<^verbatim>\<open>updateObstacles\<close>, first half (lines 262 to 266): every obstacle moves down one
  row; the front obstacle is erased, and the score raised by 10, when its row is past
  the bottom of the screen.
\<close>

definition updateObstacles_advance :: "world \<Rightarrow> world" where
  "updateObstacles_advance w =
     (let w1 = w\<lparr>obstacles := map (\<lambda>obs. obs\<lparr>y := y obs + 1\<rparr>) (obstacles w)\<rparr>
      in if obstacles w1 \<noteq> [] \<and> y (hd (obstacles w1)) > SCREEN_HEIGHT
         then w1\<lparr>obstacles := tl (obstacles w1), score := score w1 + 10\<rparr>
         else w1)"

text \<open>
  \<^verbatim>\<open>updateObstacles\<close>, second half (lines 267 to 272).  The first \<^verbatim>\<open>rand()\<close> is the
  left operand of \<^verbatim>\<open>&&\<close>, so it is drawn on every call; the second one is drawn only
  when an obstacle is spawned.
\<close>

definition updateObstacles_spawn :: "world \<Rightarrow> world" where
  "updateObstacles_spawn w =
     (let (r1, w1) = rand w;
          shouldSpawn = (r1 mod 10 < 3 \<and> obstacles w1 = []) \<or>
                        (obstacles w1 \<noteq> [] \<and> y (last (obstacles w1)) > 2)
      in if shouldSpawn
         then (let (r2, w2) = rand w1;
                   newX = r2 mod TRACK_WIDTH + 2
               in w2\<lparr>obstacles := obstacles w2 @ [\<lparr>x = newX, y = 1\<rparr>]\<rparr>)
         else w1)"

definition updateObstacles :: "world \<Rightarrow> world" where
  "updateObstacles w = updateObstacles_spawn (updateObstacles_advance w)"

text \<open>
  \<^verbatim>\<open>checkCollision\<close>: the loop over the obstacles, left at the first obstacle found
  on the bottom row in the player's column.
\<close>

fun checkCollision_loop :: "Car list \<Rightarrow> world \<Rightarrow> world" where
  "checkCollision_loop [] w = w"
| "checkCollision_loop (obs # rest) w =
     (if y obs = SCREEN_HEIGHT \<and> x obs = playerX w
      then w\<lparr>gameOver := True\<rparr>
      else checkCollision_loop rest w)"

definition checkCollision :: "world \<Rightarrow> world" where
  "checkCollision w = checkCollision_loop (obstacles w) w"

subsection \<open>Rendering\<close>

text \<open>
  One cell of the grid, as the body of the two loops of \<^verbatim>\<open>draw\<close> prints it: the
  border, the player on the bottom row, the first obstacle found at the cell, or road.
\<close>

definition PLAYER_CHAR :: char where
  "PLAYER_CHAR = CHR ''@''"

definition OBSTACLE_CHAR :: char where
  "OBSTACLE_CHAR = CHR ''#''"

definition ROAD_CHAR :: char where
  "ROAD_CHAR = CHR '' ''"

definition BORDER_CHAR :: char where
  "BORDER_CHAR = CHR ''|''"

definition draw_cell :: "world \<Rightarrow> int \<Rightarrow> int \<Rightarrow> char" where
  "draw_cell w yy xx =
     (if xx = 1 \<or> xx = TRACK_WIDTH + 2 then BORDER_CHAR
      else if yy = SCREEN_HEIGHT \<and> xx = playerX w then PLAYER_CHAR
      else if list_ex (\<lambda>obs. y obs = yy \<and> x obs = xx) (obstacles w) then OBSTACLE_CHAR
      else ROAD_CHAR)"

definition draw_row :: "world \<Rightarrow> int \<Rightarrow> string" where
  "draw_row w yy = map (draw_cell w yy) [1..TRACK_WIDTH + 2] @ [CHR 0x0A]"

definition draw :: "world \<Rightarrow> world" where
  "draw w =
     (let w1 = gotoxy 1 1 w;
          w2 = cout (concat (map (draw_row w1) [1..SCREEN_HEIGHT])) w1;
          w3 = gotoxy (SCREEN_HEIGHT + 1) 1 w2
      in cout (''Score: '' @ show_int (score w3) @ '' | Level: '' @ show_int (difficultyLevel w3)
               @ '' | Controls: Left='' @ keyToDisplay (moveLeftKey w3)
               @ '' Right='' @ keyToDisplay (moveRightKey w3) @ ''    '') w3)"

subsection \<open>The game loop\<close>

text \<open>
  Lines 433 to 441: what one iteration does with the key it has read.
\<close>

definition gameLoop_input :: "string \<Rightarrow> world \<Rightarrow> world" where
  "gameLoop_input input w =
     (if input \<noteq> []
      then (if input = moveLeftKey w
            then (if playerX w > 2 then w\<lparr>playerX := playerX w - 1\<rparr> else w)
            else if input = moveRightKey w
            then (if playerX w < TRACK_WIDTH + 1 then w\<lparr>playerX := playerX w + 1\<rparr> else w)
            else if input = ''q'' \<or> input = ''Q'' \<or> input = [CHR 0x03]
            then w\<lparr>gameOver := True\<rparr>
            else w)
      else w)"

text \<open>
  Lines 445 to 449: the simulation tick, run when enough time has passed since the
  last one.  The local variable \<^verbatim>\<open>lastUpdateTime\<close> travels with the world.
\<close>

definition gameLoop_tick :: "int \<Rightarrow> int \<Rightarrow> int \<Rightarrow> world \<Rightarrow> int \<times> world" where
  "gameLoop_tick updateDuration lastUpdateTime currentTime w =
     (let elapsed = duration_cast_ms (currentTime - lastUpdateTime)
      in if elapsed \<ge> updateDuration
         then (currentTime, checkCollision (updateObstacles w))
         else (lastUpdateTime, w))"

text \<open>The body of the \<^verbatim>\<open>while\<close> loop, lines 432 to 452.\<close>

definition gameLoop_body :: "int \<Rightarrow> int \<times> world \<Rightarrow> int \<times> world" where
  "gameLoop_body updateDuration lw =
     (let (lastUpdateTime, w) = lw;
          (input, w1) = getInputSequence w;
          w2 = gameLoop_input input w1;
          (currentTime, w3) = steady_clock_now w2;
          (lastUpdateTime', w4) = gameLoop_tick updateDuration lastUpdateTime currentTime w3;
          w5 = draw w4
      in (lastUpdateTime', sleep_for 1 w5))"

text \<open>
  \<^verbatim>\<open>while (!gameOver)\<close>: one turn of the loop runs the body unless the flag is set,
  and \<open>gameLoop_run n\<close> is the state reached after at most \<open>n\<close> turns.
\<close>

definition gameLoop_step :: "int \<Rightarrow> int \<times> world \<Rightarrow> int \<times> world" where
  "gameLoop_step updateDuration lw =
     (if gameOver (snd lw) then lw else gameLoop_body updateDuration lw)"

definition gameLoop_run :: "nat \<Rightarrow> int \<Rightarrow> int \<times> world \<Rightarrow> int \<times> world" where
  "gameLoop_run n updateDuration lw = (gameLoop_step updateDuration ^^ n) lw"

text \<open>
  \<^verbatim>\<open>gameLoop\<close> up to the loop (lines 417 to 429), and the whole function: the result
  is \<open>None\<close> when the loop has not ended within \<open>fuel\<close> iterations.
\<close>

definition gameLoop_init :: "world \<Rightarrow> int \<times> int \<times> world" where
  "gameLoop_init w =
     (let w0 = w\<lparr>gameOver := False, score := 0, playerX := START_PLAYER_X, obstacles := []\<rparr>;
          w1 = hideCursor (cout CLEAR_SCREEN w0);
          msDuration = 120 - difficultyLevel w1 * 20;
          msDuration = (if msDuration < 20 then 20 else msDuration);
          (lastUpdateTime, w2) = steady_clock_now w1
      in (msDuration, lastUpdateTime, w2))"

definition gameLoop :: "nat \<Rightarrow> world \<Rightarrow> world option" where
  "gameLoop fuel w =
     (let (updateDuration, lw) = gameLoop_init w;
          (lastUpdateTime, w') = gameLoop_run fuel updateDuration lw
      in if gameOver w' then Some (saveHighestScore w') else None)"

subsection \<open>Well-spaced fields\<close>

text \<open>
  \<open>rows_spaced\<close>: from the front of the field to its back, each obstacle is at least
  two rows above the one before it.  \<open>field_ok\<close>: moreover every obstacle is on the
  screen, rows 1 to 20, and inside the track, columns 2 to 21.
\<close>

fun rows_spaced :: "Car list \<Rightarrow> bool" where
  "rows_spaced (a # b # rest) = (y b + 2 \<le> y a \<and> rows_spaced (b # rest))"
| "rows_spaced _ = True"

definition field_ok :: "Car list \<Rightarrow> bool" where
  "field_ok obs =
     (rows_spaced obs \<and>
      list_all (\<lambda>obs. 1 \<le> y obs \<and> y obs \<le> SCREEN_HEIGHT \<and>
                       2 \<le> x obs \<and> x obs \<le> TRACK_WIDTH + 1) obs)"

text \<open>
  For the proofs about the wait loop: the number of times the loop can still sleep
  when its counter stands at \<open>waited\<close>.
\<close>

definition wait_rounds :: "int \<Rightarrow> nat" where
  "wait_rounds waited = (if waited < 100 then nat ((100 - waited + 7) div 8) else 0)"

subsection \<open>A concrete world\<close>

text \<open>
  The globals as their initialisers in the source set them, in an environment where
  nothing is typed, every random draw and every clock reading is 0, and there is no
  high score file yet.
\<close>

definition initial_world :: world where
  "initial_world =
     \<lparr>obstacles = [], playerX = START_PLAYER_X, score = 0, gameOver = False,
      highestScore = 0, difficultyLevel = 1, moveLeftKey = ''a'', moveRightKey = ''d'',
      rand_src = (\<lambda>_. 0), rand_pos = 0,
      tty_buf = [], tty_arrivals = (\<lambda>_. []), sleeps = 0, slept_ms = 0,
      clock_src = (\<lambda>_. 0), clock_pos = 0,
      out = [], hs_file = None, hs_writable = True\<rparr>"

text \<open>
  A world in which \<^verbatim>\<open>q\<close> has been typed before the game starts and the clock
  advances by 200 ms from one reading to the next, so that the first iteration reads
  the key and finds its tick due.
\<close>

definition quit_world :: world where
  "quit_world = initial_world\<lparr>tty_buf := ''q'', clock_src := (\<lambda>n. int n * 200000000)\<rparr>"

text \<open>
  A world at the end of a game that scored 120, where the high score in memory is 50
  and \<^verbatim>\<open>highscore.txt\<close> holds \<^verbatim>\<open>50\<close> and can be read but not opened for writing.
\<close>

definition readonly_world :: world where
  "readonly_world =
     initial_world\<lparr>score := 120, highestScore := 50, hs_file := Some ''50'', hs_writable := False\<rparr>"

section \<open>Properties\<close>

subsection \<open>Collision check\<close>

lemma checkCollision_loop_cases:
  "checkCollision_loop cs w =
     (if \<exists>obs\<in>set cs. y obs = SCREEN_HEIGHT \<and> x obs = playerX w
      then w\<lparr>gameOver := True\<rparr> else w)"
  by (induction cs) auto

lemma checkCollision_cases:
  "checkCollision w =
     (if \<exists>obs\<in>set (obstacles w). y obs = SCREEN_HEIGHT \<and> x obs = playerX w
      then w\<lparr>gameOver := True\<rparr> else w)"
  by (simp add: checkCollision_def checkCollision_loop_cases)

lemma spawn_obstacles:
  "obstacles (updateObstacles_spawn w) = obstacles w \<or>
   (\<exists>c. obstacles (updateObstacles_spawn w) = obstacles w @ [\<lparr>x = c, y = 1\<rparr>])"
  by (simp add: updateObstacles_spawn_def rand_def Let_def)

lemma spawn_playerX [simp]: "playerX (updateObstacles_spawn w) = playerX w"
  by (simp add: updateObstacles_spawn_def rand_def Let_def)

lemma advance_playerX [simp]: "playerX (updateObstacles_advance w) = playerX w"
  by (simp add: updateObstacles_advance_def Let_def)

text \<open>
  Claim C1.  After \<^verbatim>\<open>checkCollision\<close> the game-over flag is set exactly when it was
  set before or some obstacle of the field is on the bottom row (row 20) in the
  player's column; so, called with the flag clear, it sets the flag if and only if
  there is such an obstacle.  Nothing but the flag changes: the player's column, the
  score, the field and the environment are as before.  In a tick the check runs on the
  field that \<^verbatim>\<open>updateObstacles\<close> leaves, and an obstacle spawned there is on row 1, so
  the obstacles it finds are those of the field as the advance step left it.
\<close>

theorem checkCollision_iff:
  "(gameOver (checkCollision w) \<longleftrightarrow>
      gameOver w \<or> (\<exists>obs\<in>set (obstacles w). y obs = SCREEN_HEIGHT \<and> x obs = playerX w)) \<and>
   (gameOver (checkCollision (w\<lparr>gameOver := False\<rparr>)) \<longleftrightarrow>
      (\<exists>obs\<in>set (obstacles w). y obs = SCREEN_HEIGHT \<and> x obs = playerX w)) \<and>
   checkCollision w = w\<lparr>gameOver := gameOver (checkCollision w)\<rparr> \<and>
   ((\<exists>obs\<in>set (obstacles (updateObstacles w)).
        y obs = SCREEN_HEIGHT \<and> x obs = playerX (updateObstacles w)) \<longleftrightarrow>
    (\<exists>obs\<in>set (obstacles (updateObstacles_advance w)).
        y obs = SCREEN_HEIGHT \<and> x obs = playerX w))"
proof -
  have a: "gameOver (checkCollision w) \<longleftrightarrow>
      gameOver w \<or> (\<exists>obs\<in>set (obstacles w). y obs = SCREEN_HEIGHT \<and> x obs = playerX w)"
    by (auto simp: checkCollision_cases)
  have b: "gameOver (checkCollision (w\<lparr>gameOver := False\<rparr>)) \<longleftrightarrow>
      (\<exists>obs\<in>set (obstacles w). y obs = SCREEN_HEIGHT \<and> x obs = playerX w)"
    by (simp add: checkCollision_cases)
  have c: "checkCollision w = w\<lparr>gameOver := gameOver (checkCollision w)\<rparr>"
    by (simp add: checkCollision_cases)
  have d: "(\<exists>obs\<in>set (obstacles (updateObstacles w)).
        y obs = SCREEN_HEIGHT \<and> x obs = playerX (updateObstacles w)) \<longleftrightarrow>
    (\<exists>obs\<in>set (obstacles (updateObstacles_advance w)).
        y obs = SCREEN_HEIGHT \<and> x obs = playerX w)"
    using spawn_obstacles [of "updateObstacles_advance w"]
    by (auto simp: updateObstacles_def SCREEN_HEIGHT_def)
  from a b c d show ?thesis by blast
qed

theorem checkCollision_iff_witness:
  "gameOver (checkCollision (initial_world\<lparr>obstacles := [\<lparr>x = 4, y = 20\<rparr>, \<lparr>x = 11, y = 20\<rparr>]\<rparr>)) \<and>
   \<not> gameOver (checkCollision (initial_world\<lparr>obstacles := [\<lparr>x = 11, y = 19\<rparr>, \<lparr>x = 4, y = 20\<rparr>]\<rparr>))"
  using checkCollision_iff [of "initial_world\<lparr>obstacles := [\<lparr>x = 4, y = 20\<rparr>, \<lparr>x = 11, y = 20\<rparr>]\<rparr>"]
        checkCollision_iff [of "initial_world\<lparr>obstacles := [\<lparr>x = 11, y = 19\<rparr>, \<lparr>x = 4, y = 20\<rparr>]\<rparr>"]
  by (simp add: initial_world_def START_PLAYER_X_def TRACK_WIDTH_def SCREEN_HEIGHT_def)

subsection \<open>The advance step\<close>

lemma advance_obstacles:
  "obstacles (updateObstacles_advance w) =
     (if obstacles w \<noteq> [] \<and> y (hd (obstacles w)) + 1 > SCREEN_HEIGHT
      then tl (map (\<lambda>obs. obs\<lparr>y := y obs + 1\<rparr>) (obstacles w))
      else map (\<lambda>obs. obs\<lparr>y := y obs + 1\<rparr>) (obstacles w))"
  by (cases "obstacles w") (simp_all add: updateObstacles_advance_def Let_def)

text \<open>
  Claim C2.  Let \<open>before\<close> be the field when the advance step starts, \<open>after\<close> the
  field it leaves and \<open>k\<close> the number of obstacles that went away.  Then \<open>k\<close> is 0
  or 1; it is 1 exactly when the field was not empty and the front obstacle's row,
  once incremented, is greater than 20; \<open>after\<close> is \<open>before\<close> with every row
  incremented by one and its first \<open>k\<close> elements dropped, so what is removed is the
  front; and each obstacle that stays has its row up by exactly 1 and its column
  unchanged.
\<close>

theorem advance_rows:
  fixes w :: world
  defines "before \<equiv> obstacles w"
    and "after \<equiv> obstacles (updateObstacles_advance w)"
  defines "k \<equiv> length before - length after"
  shows "length after \<le> length before \<and> k \<le> 1 \<and>
         (k = 1 \<longleftrightarrow> before \<noteq> [] \<and> y (hd before) + 1 > SCREEN_HEIGHT) \<and>
         after = drop k (map (\<lambda>obs. obs\<lparr>y := y obs + 1\<rparr>) before) \<and>
         (\<forall>i < length after. y (after ! i) = y (before ! (i + k)) + 1 \<and>
                              x (after ! i) = x (before ! (i + k)))"
proof (cases "before \<noteq> [] \<and> y (hd before) + 1 > SCREEN_HEIGHT")
  case True
  then have obs: "after = drop 1 (map (\<lambda>obs. obs\<lparr>y := y obs + 1\<rparr>) before)"
    unfolding before_def after_def by (simp add: advance_obstacles drop_Suc)
  have k: "k = 1"
    using True by (cases before) (simp_all add: k_def obs)
  have rows: "\<forall>i < length after. y (after ! i) = y (before ! (i + 1)) + 1 \<and>
                                  x (after ! i) = x (before ! (i + 1))"
    by (simp add: obs add.commute)
  show ?thesis
    using True obs rows by (simp add: k)
next
  case False
  then have obs: "after = map (\<lambda>obs. obs\<lparr>y := y obs + 1\<rparr>) before"
    unfolding before_def after_def by (auto simp: advance_obstacles)
  have k: "k = 0"
    by (simp add: k_def obs)
  show ?thesis
    using False by (simp add: k obs)
qed

theorem advance_rows_witness:
  "obstacles (updateObstacles_advance
      (initial_world\<lparr>obstacles := [\<lparr>x = 5, y = 20\<rparr>, \<lparr>x = 6, y = 18\<rparr>]\<rparr>)) = [\<lparr>x = 6, y = 19\<rparr>] \<and>
   obstacles (updateObstacles_advance
      (initial_world\<lparr>obstacles := [\<lparr>x = 5, y = 19\<rparr>, \<lparr>x = 6, y = 17\<rparr>]\<rparr>)) =
     [\<lparr>x = 5, y = 20\<rparr>, \<lparr>x = 6, y = 18\<rparr>]"
proof -
  have a: "length (obstacles (updateObstacles_advance
      (initial_world\<lparr>obstacles := [\<lparr>x = 5, y = 20\<rparr>, \<lparr>x = 6, y = 18\<rparr>]\<rparr>))) = 1"
    by (simp add: updateObstacles_advance_def SCREEN_HEIGHT_def)
  have b: "length (obstacles (updateObstacles_advance
      (initial_world\<lparr>obstacles := [\<lparr>x = 5, y = 19\<rparr>, \<lparr>x = 6, y = 17\<rparr>]\<rparr>))) = 2"
    by (simp add: updateObstacles_advance_def SCREEN_HEIGHT_def)
  show ?thesis
    using advance_rows [of "initial_world\<lparr>obstacles := [\<lparr>x = 5, y = 20\<rparr>, \<lparr>x = 6, y = 18\<rparr>]\<rparr>"]
          advance_rows [of "initial_world\<lparr>obstacles := [\<lparr>x = 5, y = 19\<rparr>, \<lparr>x = 6, y = 17\<rparr>]\<rparr>"]
    by (simp add: a b)
qed

subsection \<open>The spawn step\<close>

lemma spawn_cases:
  "updateObstacles_spawn w =
     (if (obstacles w = [] \<and> int (rand_src w (rand_pos w)) mod 10 < 3) \<or>
         (obstacles w \<noteq> [] \<and> y (last (obstacles w)) > 2)
      then w\<lparr>obstacles := obstacles w @
                [\<lparr>x = int (rand_src w (Suc (rand_pos w))) mod TRACK_WIDTH + 2, y = 1\<rparr>],
             rand_pos := Suc (Suc (rand_pos w))\<rparr>
      else w\<lparr>rand_pos := Suc (rand_pos w)\<rparr>)"
  by (auto simp: updateObstacles_spawn_def rand_def Let_def)

text \<open>
  Counting the draws: among the values below \<open>N\<close>, each residue modulo \<open>m\<close> is
  taken \<open>N div m\<close> times, once more for the residues below \<open>N mod m\<close>.
\<close>

lemma card_residue:
  fixes m j :: nat
  assumes "j < m"
  shows "card {r. r < N \<and> r mod m = j} = N div m + (if j < N mod m then 1 else 0)"
proof (induction N)
  case 0
  then show ?case by simp
next
  case (Suc N)
  have fin: "finite {r. r < N \<and> r mod m = j}" by simp
  have split: "{r. r < Suc N \<and> r mod m = j} =
      (if N mod m = j then insert N {r. r < N \<and> r mod m = j} else {r. r < N \<and> r mod m = j})"
    by (auto simp: less_Suc_eq)
  have notin: "N \<notin> {r. r < N \<and> r mod m = j}" by simp
  have card: "card {r. r < Suc N \<and> r mod m = j} =
      card {r. r < N \<and> r mod m = j} + (if N mod m = j then 1 else 0)"
    using fin notin by (simp add: split)
  have m: "0 < m" using assms by simp
  have arith: "N div m + (if j < N mod m then 1 else 0) + (if N mod m = j then 1 else 0) =
      Suc N div m + (if j < Suc N mod m then 1 else 0)"
    using assms m by (auto simp: mod_Suc div_Suc)
  show ?case
    using Suc.IH card arith by simp
qed

lemma draw_fires_iff:
  "(int r mod 10 < 3) = (r mod 10 = 0 \<or> r mod 10 = 1 \<or> r mod 10 = 2)" for r :: nat
proof -
  have "int r mod 10 = int (r mod 10)" by (simp add: zmod_int)
  moreover have "r mod 10 < 10" by simp
  ultimately show ?thesis by linarith
qed

lemma draw_column_iff:
  "2 \<le> c \<Longrightarrow> c \<le> 21 \<Longrightarrow> (int r mod 20 + 2 = c) = (r mod 20 = nat (c - 2))" for r :: nat
proof -
  assume "2 \<le> c" "c \<le> 21"
  moreover have "int r mod 20 = int (r mod 20)" by (simp add: zmod_int)
  ultimately show ?thesis by linarith
qed

lemma card_fire:
  "card {r::nat. r < N \<and> int r mod 10 < 3} = 3 * (N div 10) + min 3 (N mod 10)"
proof -
  let ?A = "\<lambda>j. {r. r < N \<and> r mod 10 = (j::nat)}"
  have eq: "{r::nat. r < N \<and> int r mod 10 < 3} = ?A 0 \<union> (?A 1 \<union> ?A 2)"
    unfolding draw_fires_iff by blast
  have d1: "?A 1 \<inter> ?A 2 = {}" by auto
  have d0: "?A 0 \<inter> (?A 1 \<union> ?A 2) = {}" by auto
  have c12: "card (?A 1 \<union> ?A 2) = card (?A 1) + card (?A 2)"
    by (rule card_Un_disjoint [OF _ _ d1]) simp_all
  have c012: "card (?A 0 \<union> (?A 1 \<union> ?A 2)) = card (?A 0) + card (?A 1 \<union> ?A 2)"
    by (rule card_Un_disjoint [OF _ _ d0]) simp_all
  have "card {r::nat. r < N \<and> int r mod 10 < 3} = card (?A 0) + (card (?A 1) + card (?A 2))"
    by (simp only: eq c012 c12)
  also have "\<dots> = (N div 10 + (if 0 < N mod 10 then 1 else 0)) +
      ((N div 10 + (if 1 < N mod 10 then 1 else 0)) + (N div 10 + (if 2 < N mod 10 then 1 else 0)))"
    using card_residue [of 0 10 N] card_residue [of 1 10 N] card_residue [of 2 10 N]
    by simp
  also have "\<dots> = 3 * (N div 10) + min 3 (N mod 10)"
    by (simp add: min_def)
  finally show ?thesis .
qed

lemma card_column:
  assumes "2 \<le> c" "c \<le> 21"
  shows "card {r::nat. r < N \<and> int r mod 20 + 2 = c} =
         N div 20 + (if nat (c - 2) < N mod 20 then 1 else 0)"
proof -
  have "{r::nat. r < N \<and> int r mod 20 + 2 = c} = {r. r < N \<and> r mod 20 = nat (c - 2)}"
    using draw_column_iff [OF assms] by simp
  moreover have "nat (c - 2) < 20" using assms by simp
  ultimately show ?thesis
    by (simp only: card_residue)
qed

text \<open>
  Claim C6.  Let \<open>r1\<close> and \<open>r2\<close> be the next two values of \<^verbatim>\<open>rand()\<close>.  The spawn
  step adds an obstacle exactly when the field is empty and \<open>r1 mod 10 < 3\<close>, or the
  field is not empty and the row of its last (most recently spawned) obstacle is
  greater than 2.  The new obstacle goes to the back of the field, on row 1, in column
  \<open>r2 mod 20 + 2\<close>, which lies in \<open>[2, TRACK_WIDTH + 1]\<close>; the second value is
  drawn only then.  The two probabilities of the claim are statements about counts of
  draws: of the values below any \<open>N\<close>, \<open>3 * (N div 10) + min 3 (N mod 10)\<close> make the
  empty-field test fire (three in every ten), and every column of the interior is
  chosen by \<open>N div 20\<close> of them or by one more (once in every twenty).
\<close>

theorem spawn_policy:
  fixes w :: world
  defines "r1 \<equiv> int (rand_src w (rand_pos w))"
    and "r2 \<equiv> int (rand_src w (Suc (rand_pos w)))"
  defines "fires \<equiv> (obstacles w = [] \<and> r1 mod 10 < 3) \<or>
                    (obstacles w \<noteq> [] \<and> y (last (obstacles w)) > 2)"
  shows "obstacles (updateObstacles_spawn w) =
           (if fires then obstacles w @ [\<lparr>x = r2 mod TRACK_WIDTH + 2, y = 1\<rparr>] else obstacles w) \<and>
         rand_pos (updateObstacles_spawn w) = (if fires then rand_pos w + 2 else rand_pos w + 1) \<and>
         2 \<le> r2 mod TRACK_WIDTH + 2 \<and> r2 mod TRACK_WIDTH + 2 \<le> TRACK_WIDTH + 1 \<and>
         (\<forall>N. card {r. r < N \<and> int r mod 10 < 3} = 3 * (N div 10) + min 3 (N mod 10)) \<and>
         (\<forall>N c. 2 \<le> c \<and> c \<le> TRACK_WIDTH + 1 \<longrightarrow>
            card {r. r < N \<and> int r mod TRACK_WIDTH + 2 = c} =
              N div 20 + (if nat (c - 2) < N mod 20 then 1 else 0))"
proof -
  have a: "obstacles (updateObstacles_spawn w) =
           (if fires then obstacles w @ [\<lparr>x = r2 mod TRACK_WIDTH + 2, y = 1\<rparr>] else obstacles w)"
    unfolding fires_def r1_def r2_def by (simp add: spawn_cases)
  have b: "rand_pos (updateObstacles_spawn w) = (if fires then rand_pos w + 2 else rand_pos w + 1)"
    unfolding fires_def r1_def r2_def by (simp add: spawn_cases)
  have c: "2 \<le> r2 mod TRACK_WIDTH + 2 \<and> r2 mod TRACK_WIDTH + 2 \<le> TRACK_WIDTH + 1"
    by (simp add: TRACK_WIDTH_def)
  have d: "card {r. r < N \<and> int r mod TRACK_WIDTH + 2 = c} =
              N div 20 + (if nat (c - 2) < N mod 20 then 1 else 0)"
    if "2 \<le> c \<and> c \<le> TRACK_WIDTH + 1" for c N
    using that card_column [of c N] by (simp add: TRACK_WIDTH_def)
  from a b c d card_fire show ?thesis by blast
qed

theorem spawn_policy_witness:
  "obstacles (updateObstacles_spawn (initial_world\<lparr>rand_src := (\<lambda>n. if n = 0 then 12 else 47)\<rparr>)) =
     [\<lparr>x = 9, y = 1\<rparr>] \<and>
   obstacles (updateObstacles_spawn (initial_world\<lparr>rand_src := (\<lambda>n. 13)\<rparr>)) = [] \<and>
   obstacles (updateObstacles_spawn (initial_world\<lparr>obstacles := [\<lparr>x = 4, y = 3\<rparr>]\<rparr>)) =
     [\<lparr>x = 4, y = 3\<rparr>, \<lparr>x = 2, y = 1\<rparr>] \<and>
   obstacles (updateObstacles_spawn (initial_world\<lparr>obstacles := [\<lparr>x = 4, y = 2\<rparr>]\<rparr>)) =
     [\<lparr>x = 4, y = 2\<rparr>] \<and>
   card {r. r < (2147483648::nat) \<and> int r mod TRACK_WIDTH + 2 = 9} = 107374183 \<and>
   card {r. r < (2147483648::nat) \<and> int r mod TRACK_WIDTH + 2 = 10} = 107374182"
proof -
  have cols: "2 \<le> c \<and> c \<le> TRACK_WIDTH + 1 \<longrightarrow>
            card {r. r < N \<and> int r mod TRACK_WIDTH + 2 = c} =
              N div 20 + (if nat (c - 2) < N mod 20 then 1 else 0)" for N c
    using spawn_policy [of initial_world] by blast
  have c9: "card {r. r < (2147483648::nat) \<and> int r mod TRACK_WIDTH + 2 = 9} = 107374183"
    using cols [of 9 2147483648] by (simp add: TRACK_WIDTH_def)
  have c10: "card {r. r < (2147483648::nat) \<and> int r mod TRACK_WIDTH + 2 = 10} = 107374182"
    using cols [of 10 2147483648] by (simp add: TRACK_WIDTH_def)
  have fields: "obstacles (updateObstacles_spawn (initial_world\<lparr>rand_src := (\<lambda>n. if n = 0 then 12 else 47)\<rparr>)) =
     [\<lparr>x = 9, y = 1\<rparr>] \<and>
   obstacles (updateObstacles_spawn (initial_world\<lparr>rand_src := (\<lambda>n. 13)\<rparr>)) = [] \<and>
   obstacles (updateObstacles_spawn (initial_world\<lparr>obstacles := [\<lparr>x = 4, y = 3\<rparr>]\<rparr>)) =
     [\<lparr>x = 4, y = 3\<rparr>, \<lparr>x = 2, y = 1\<rparr>] \<and>
   obstacles (updateObstacles_spawn (initial_world\<lparr>obstacles := [\<lparr>x = 4, y = 2\<rparr>]\<rparr>)) =
     [\<lparr>x = 4, y = 2\<rparr>]"
    using spawn_policy [of "initial_world\<lparr>rand_src := (\<lambda>n. if n = 0 then 12 else 47)\<rparr>"]
          spawn_policy [of "initial_world\<lparr>rand_src := (\<lambda>n. 13)\<rparr>"]
          spawn_policy [of "initial_world\<lparr>obstacles := [\<lparr>x = 4, y = 3\<rparr>]\<rparr>"]
          spawn_policy [of "initial_world\<lparr>obstacles := [\<lparr>x = 4, y = 2\<rparr>]\<rparr>"]
    by (simp add: initial_world_def TRACK_WIDTH_def)
  from fields c9 c10 show ?thesis by blast
qed

subsection \<open>The field of a run\<close>

lemma rows_spaced_nth:
  "rows_spaced obs \<longleftrightarrow> (\<forall>i. Suc i < length obs \<longrightarrow> y (obs ! Suc i) + 2 \<le> y (obs ! i))"
proof (induction obs rule: rows_spaced.induct)
  case (1 a b rest)
  show ?case
  proof
    assume l: "rows_spaced (a # b # rest)"
    then have ih: "\<forall>i. Suc i < length (b # rest) \<longrightarrow> y ((b # rest) ! Suc i) + 2 \<le> y ((b # rest) ! i)"
      using 1 by simp
    show "\<forall>i. Suc i < length (a # b # rest) \<longrightarrow> y ((a # b # rest) ! Suc i) + 2 \<le> y ((a # b # rest) ! i)"
    proof (intro allI impI)
      fix i assume "Suc i < length (a # b # rest)"
      then show "y ((a # b # rest) ! Suc i) + 2 \<le> y ((a # b # rest) ! i)"
        using l ih by (cases i) auto
    qed
  next
    assume r: "\<forall>i. Suc i < length (a # b # rest) \<longrightarrow> y ((a # b # rest) ! Suc i) + 2 \<le> y ((a # b # rest) ! i)"
    then have "y b + 2 \<le> y a" by force
    moreover have "\<forall>i. Suc i < length (b # rest) \<longrightarrow> y ((b # rest) ! Suc i) + 2 \<le> y ((b # rest) ! i)"
      using r by force
    ultimately show "rows_spaced (a # b # rest)" using 1 by simp
  qed
qed simp_all

lemma rows_spaced_head:
  "rows_spaced (a # rest) \<Longrightarrow> obs \<in> set rest \<Longrightarrow> y obs + 2 \<le> y a"
proof (induction rest arbitrary: a)
  case Nil
  then show ?case by simp
next
  case (Cons b rest)
  then show ?case by fastforce
qed

lemma rows_spaced_decreasing:
  "rows_spaced obs \<Longrightarrow> i < j \<Longrightarrow> j < length obs \<Longrightarrow> y (obs ! j) < y (obs ! i)"
proof (induction obs arbitrary: i j)
  case Nil
  then show ?case by simp
next
  case (Cons a rest)
  obtain j' where j: "j = Suc j'" using Cons.prems(2) by (cases j) auto
  have tl: "rows_spaced rest" using Cons.prems(1) by (cases rest) auto
  show ?case
  proof (cases i)
    case 0
    have "rest ! j' \<in> set rest" using Cons.prems(3) j by simp
    then show ?thesis using rows_spaced_head [OF Cons.prems(1)] 0 j by fastforce
  next
    case (Suc i')
    then show ?thesis using Cons.IH [OF tl, of i' j'] Cons.prems j by simp
  qed
qed

lemma rows_spaced_map:
  "rows_spaced (map (\<lambda>obs. obs\<lparr>y := y obs + 1\<rparr>) obs) = rows_spaced obs"
  by (induction obs rule: rows_spaced.induct) auto

lemma rows_spaced_tl: "rows_spaced obs \<Longrightarrow> rows_spaced (tl obs)"
  by (induction obs rule: rows_spaced.induct) simp_all

lemma rows_spaced_snoc:
  "rows_spaced obs \<Longrightarrow> obs \<noteq> [] \<Longrightarrow> y (last obs) > 2 \<Longrightarrow> rows_spaced (obs @ [\<lparr>x = c, y = 1\<rparr>])"
  by (induction obs rule: rows_spaced.induct) simp_all


lemma field_ok_advance:
  assumes "field_ok (obstacles w)"
  shows "field_ok (obstacles (updateObstacles_advance w))"
proof -
  let ?m = "map (\<lambda>obs. obs\<lparr>y := y obs + 1\<rparr>) (obstacles w)"
  have sp: "rows_spaced ?m"
    using assms by (simp add: field_ok_def rows_spaced_map)
  have rng: "\<forall>obs\<in>set ?m. 2 \<le> y obs \<and> y obs \<le> SCREEN_HEIGHT + 1 \<and> 2 \<le> x obs \<and> x obs \<le> TRACK_WIDTH + 1"
    using assms by (auto simp: field_ok_def list_all_iff)
  show ?thesis
  proof (cases "obstacles w \<noteq> [] \<and> y (hd (obstacles w)) + 1 > SCREEN_HEIGHT")
    case True
    then obtain a rest where m: "?m = a # rest"
      by (cases "obstacles w") auto
    have after: "obstacles (updateObstacles_advance w) = rest"
      using True m by (simp add: advance_obstacles)
    have "\<forall>obs\<in>set rest. y obs + 2 \<le> y a"
      using sp rows_spaced_head unfolding m by blast
    moreover have "y a \<le> SCREEN_HEIGHT + 1"
      using rng unfolding m by simp
    ultimately have "\<forall>obs\<in>set rest. y obs \<le> SCREEN_HEIGHT" by fastforce
    moreover have "rows_spaced rest"
      using rows_spaced_tl [OF sp] unfolding m by simp
    ultimately show ?thesis
      using rng unfolding after m by (auto simp: field_ok_def list_all_iff)
  next
    case False
    then have after: "obstacles (updateObstacles_advance w) = ?m"
      by (auto simp: advance_obstacles)
    have "\<forall>obs\<in>set ?m. y obs \<le> SCREEN_HEIGHT"
    proof (cases "obstacles w")
      case Nil
      then show ?thesis by simp
    next
      case (Cons a rest)
      then have hd: "y a + 1 \<le> SCREEN_HEIGHT" using False by simp
      have "\<forall>obs\<in>set rest. y obs + 2 \<le> y a"
        using assms rows_spaced_head unfolding Cons field_ok_def by blast
      then show ?thesis using hd unfolding Cons by fastforce
    qed
    then show ?thesis
      using sp rng unfolding after by (auto simp: field_ok_def list_all_iff)
  qed
qed

lemma field_ok_spawn:
  assumes "field_ok (obstacles w)"
  shows "field_ok (obstacles (updateObstacles_spawn w))"
proof -
  have col: "2 \<le> int r mod TRACK_WIDTH + 2 \<and> int r mod TRACK_WIDTH + 2 \<le> TRACK_WIDTH + 1" for r :: nat
    by (simp add: TRACK_WIDTH_def)
  have new: "rows_spaced (obstacles w @ [\<lparr>x = c, y = 1\<rparr>])"
    if "obstacles w = [] \<or> y (last (obstacles w)) > 2" for c
    using that assms rows_spaced_snoc [of "obstacles w" c]
    by (cases "obstacles w = []") (auto simp: field_ok_def)
  show ?thesis
    using assms col new
    by (auto simp: spawn_cases field_ok_def list_all_iff SCREEN_HEIGHT_def)
qed

lemma field_ok_updateObstacles:
  "field_ok (obstacles w) \<Longrightarrow> field_ok (obstacles (updateObstacles w))"
  by (simp add: updateObstacles_def field_ok_advance field_ok_spawn)

lemma field_ok_ticks:
  "field_ok (obstacles w) \<Longrightarrow> field_ok (obstacles ((updateObstacles ^^ n) w))"
  by (induction n) (simp_all add: field_ok_updateObstacles)

lemma past_bottom_front_only:
  assumes "field_ok obs"
  shows "length (filter (\<lambda>obs. y obs > SCREEN_HEIGHT) (map (\<lambda>obs. obs\<lparr>y := y obs + 1\<rparr>) obs)) \<le> 1"
proof (cases obs)
  case Nil
  then show ?thesis by simp
next
  case (Cons a rest)
  have "\<forall>obs\<in>set rest. y obs + 2 \<le> y a"
    using assms rows_spaced_head unfolding Cons field_ok_def by blast
  moreover have "y a \<le> SCREEN_HEIGHT"
    using assms unfolding Cons field_ok_def by simp
  ultimately have "\<forall>obs\<in>set rest. \<not> y obs + 1 > SCREEN_HEIGHT" by fastforce
  then have "filter (\<lambda>obs. y obs > SCREEN_HEIGHT) (map (\<lambda>obs. obs\<lparr>y := y obs + 1\<rparr>) rest) = []"
    by (auto simp: filter_empty_conv)
  then show ?thesis unfolding Cons by simp
qed

text \<open>
  Claim C9.  Start from any world whose field is empty and run any number of ticks.
  In the field reached, rows strictly decrease from the front to the back, neighbours
  are at least two rows apart, and every row is between 1 and 20.  So when the next
  tick has incremented the rows, at most one obstacle is past row 20, and once the
  advance step has removed the front none is.
\<close>

theorem field_spacing_invariant:
  fixes w :: world and n :: nat
  assumes "obstacles w = []"
  defines "field \<equiv> obstacles ((updateObstacles ^^ n) w)"
  shows "(\<forall>i j. i < j \<and> j < length field \<longrightarrow> y (field ! j) < y (field ! i)) \<and>
         (\<forall>i. Suc i < length field \<longrightarrow> y (field ! Suc i) + 2 \<le> y (field ! i)) \<and>
         length (filter (\<lambda>obs. y obs > SCREEN_HEIGHT)
                   (map (\<lambda>obs. obs\<lparr>y := y obs + 1\<rparr>) field)) \<le> 1 \<and>
         (\<forall>obs\<in>set (obstacles (updateObstacles_advance ((updateObstacles ^^ n) w))).
            y obs \<le> SCREEN_HEIGHT) \<and>
         (\<forall>obs\<in>set field. 1 \<le> y obs \<and> y obs \<le> SCREEN_HEIGHT)"
proof -
  have "field_ok (obstacles w)"
    using assms(1) by (simp add: field_ok_def)
  then have ok: "field_ok field"
    unfolding field_def by (rule field_ok_ticks)
  have sp: "rows_spaced field" using ok by (simp add: field_ok_def)
  have a: "\<forall>i j. i < j \<and> j < length field \<longrightarrow> y (field ! j) < y (field ! i)"
    using rows_spaced_decreasing [OF sp] by blast
  have b: "\<forall>i. Suc i < length field \<longrightarrow> y (field ! Suc i) + 2 \<le> y (field ! i)"
    using sp by (simp add: rows_spaced_nth)
  have c: "length (filter (\<lambda>obs. y obs > SCREEN_HEIGHT)
                   (map (\<lambda>obs. obs\<lparr>y := y obs + 1\<rparr>) field)) \<le> 1"
    using ok by (rule past_bottom_front_only)
  have "field_ok (obstacles (updateObstacles_advance ((updateObstacles ^^ n) w)))"
    using ok unfolding field_def by (rule field_ok_advance)
  then have d: "\<forall>obs\<in>set (obstacles (updateObstacles_advance ((updateObstacles ^^ n) w))).
            y obs \<le> SCREEN_HEIGHT"
    by (simp add: field_ok_def list_all_iff)
  have e: "\<forall>obs\<in>set field. 1 \<le> y obs \<and> y obs \<le> SCREEN_HEIGHT"
    using ok by (simp add: field_ok_def list_all_iff)
  from a b c d e show ?thesis by blast
qed

theorem field_spacing_invariant_witness:
  "obstacles initial_world = [] \<and>
   obstacles ((updateObstacles ^^ 3) initial_world) = [\<lparr>x = 2, y = 3\<rparr>, \<lparr>x = 2, y = 1\<rparr>] \<and>
   y (obstacles ((updateObstacles ^^ 3) initial_world) ! 1) <
     y (obstacles ((updateObstacles ^^ 3) initial_world) ! 0)"
proof -
  have e: "obstacles initial_world = []"
    by (simp add: initial_world_def)
  have f: "obstacles ((updateObstacles ^^ 3) initial_world) = [\<lparr>x = 2, y = 3\<rparr>, \<lparr>x = 2, y = 1\<rparr>]"
    by (simp add: eval_nat_numeral updateObstacles_def spawn_cases updateObstacles_advance_def
        initial_world_def SCREEN_HEIGHT_def TRACK_WIDTH_def)
  have "0 < (1::nat) \<and> 1 < length (obstacles ((updateObstacles ^^ 3) initial_world))"
    by (simp add: f)
  then have "y (obstacles ((updateObstacles ^^ 3) initial_world) ! 1) <
     y (obstacles ((updateObstacles ^^ 3) initial_world) ! 0)"
    using field_spacing_invariant [OF e, of 3] by blast
  then show ?thesis
    using e f by blast
qed

subsection \<open>What each step leaves alone\<close>

lemma wait_shape:
  "\<exists>b n m. snd (getInputSequence_wait t res w) = w\<lparr>tty_buf := b, sleeps := n, slept_ms := m\<rparr>"
proof (induction t res w rule: getInputSequence_wait.induct)
  case (1 waited res w)
  show ?case
  proof (cases "waited < 100 \<and> tty_buf w = []")
    case True
    then obtain b n m where
      "snd (getInputSequence_wait (waited + 8) res (sleep_for 8 w)) =
         (sleep_for 8 w)\<lparr>tty_buf := b, sleeps := n, slept_ms := m\<rparr>"
      using 1 by force
    then have "snd (getInputSequence_wait waited res w) = w\<lparr>tty_buf := b, sleeps := n, slept_ms := m\<rparr>"
      using True by (subst getInputSequence_wait.simps) (simp add: sleep_for_def)
    then show ?thesis by blast
  next
    case False
    then have "snd (getInputSequence_wait waited res w) =
        w\<lparr>tty_buf := tty_buf (snd (getInputSequence_wait waited res w)), sleeps := sleeps w, slept_ms := slept_ms w\<rparr>"
      by (subst (1 2) getInputSequence_wait.simps) (auto simp: Let_def)
    then show ?thesis by blast
  qed
qed

lemma getInputSequence_shape:
  "\<exists>b n m. snd (getInputSequence w) = w\<lparr>tty_buf := b, sleeps := n, slept_ms := m\<rparr>"
proof (cases "tty_buf w \<noteq> [] \<and> hd (tty_buf w) = ESC")
  case True
  obtain b n m where
    "snd (getInputSequence_wait 0 [hd (tty_buf w)] (w\<lparr>tty_buf := tl (tty_buf w)\<rparr>)) =
       (w\<lparr>tty_buf := tl (tty_buf w)\<rparr>)\<lparr>tty_buf := b, sleeps := n, slept_ms := m\<rparr>"
    using wait_shape by blast
  then have "snd (getInputSequence w) = w\<lparr>tty_buf := b, sleeps := n, slept_ms := m\<rparr>"
    using True by (simp add: getInputSequence_def Let_def)
  then show ?thesis by blast
next
  case False
  then have "snd (getInputSequence w) =
      w\<lparr>tty_buf := tty_buf (snd (getInputSequence w)), sleeps := sleeps w, slept_ms := slept_ms w\<rparr>"
    by (auto simp: getInputSequence_def Let_def)
  then show ?thesis by blast
qed

lemma getInputSequence_frame [simp]:
  "obstacles (snd (getInputSequence w)) = obstacles w"
  "playerX (snd (getInputSequence w)) = playerX w"
  "score (snd (getInputSequence w)) = score w"
  "gameOver (snd (getInputSequence w)) = gameOver w"
  "moveLeftKey (snd (getInputSequence w)) = moveLeftKey w"
  "moveRightKey (snd (getInputSequence w)) = moveRightKey w"
  "rand_src (snd (getInputSequence w)) = rand_src w"
  "rand_pos (snd (getInputSequence w)) = rand_pos w"
  "clock_src (snd (getInputSequence w)) = clock_src w"
  "clock_pos (snd (getInputSequence w)) = clock_pos w"
  "out (snd (getInputSequence w)) = out w"
  using getInputSequence_shape [of w] by auto

lemma draw_shape: "draw w = w\<lparr>out := out (draw w)\<rparr>"
  by (simp add: draw_def gotoxy_def cout_def Let_def)

lemma draw_frame [simp]:
  "obstacles (draw w) = obstacles w"
  "playerX (draw w) = playerX w"
  "score (draw w) = score w"
  "gameOver (draw w) = gameOver w"
  "moveLeftKey (draw w) = moveLeftKey w"
  "moveRightKey (draw w) = moveRightKey w"
  "rand_src (draw w) = rand_src w"
  "rand_pos (draw w) = rand_pos w"
  "sleeps (draw w) = sleeps w"
  by (subst draw_shape, simp)+

lemma draw_out_grows: "length (out w) < length (out (draw w))"
  by (simp add: draw_def gotoxy_def cout_def Let_def)

lemma sleep_for_frame [simp]:
  "obstacles (sleep_for ms w) = obstacles w"
  "playerX (sleep_for ms w) = playerX w"
  "score (sleep_for ms w) = score w"
  "gameOver (sleep_for ms w) = gameOver w"
  "moveLeftKey (sleep_for ms w) = moveLeftKey w"
  "moveRightKey (sleep_for ms w) = moveRightKey w"
  "rand_src (sleep_for ms w) = rand_src w"
  "rand_pos (sleep_for ms w) = rand_pos w"
  "out (sleep_for ms w) = out w"
  by (simp_all add: sleep_for_def)

lemma steady_clock_now_frame [simp]:
  "obstacles (snd (steady_clock_now w)) = obstacles w"
  "playerX (snd (steady_clock_now w)) = playerX w"
  "score (snd (steady_clock_now w)) = score w"
  "gameOver (snd (steady_clock_now w)) = gameOver w"
  "moveLeftKey (snd (steady_clock_now w)) = moveLeftKey w"
  "moveRightKey (snd (steady_clock_now w)) = moveRightKey w"
  "rand_src (snd (steady_clock_now w)) = rand_src w"
  "rand_pos (snd (steady_clock_now w)) = rand_pos w"
  "out (snd (steady_clock_now w)) = out w"
  "fst (steady_clock_now w) = clock_src w (clock_pos w)"
  by (simp_all add: steady_clock_now_def)

lemma gameLoop_input_frame [simp]:
  "obstacles (gameLoop_input k w) = obstacles w"
  "score (gameLoop_input k w) = score w"
  "moveLeftKey (gameLoop_input k w) = moveLeftKey w"
  "moveRightKey (gameLoop_input k w) = moveRightKey w"
  "rand_src (gameLoop_input k w) = rand_src w"
  "rand_pos (gameLoop_input k w) = rand_pos w"
  "clock_src (gameLoop_input k w) = clock_src w"
  "clock_pos (gameLoop_input k w) = clock_pos w"
  "out (gameLoop_input k w) = out w"
  by (simp_all add: gameLoop_input_def)

lemma checkCollision_frame [simp]:
  "obstacles (checkCollision w) = obstacles w"
  "playerX (checkCollision w) = playerX w"
  "score (checkCollision w) = score w"
  "moveLeftKey (checkCollision w) = moveLeftKey w"
  "moveRightKey (checkCollision w) = moveRightKey w"
  "out (checkCollision w) = out w"
  by (simp_all add: checkCollision_cases)

lemma checkCollision_keeps_flag: "gameOver w \<Longrightarrow> gameOver (checkCollision w)"
  by (simp add: checkCollision_cases)

lemma updateObstacles_frame [simp]:
  "playerX (updateObstacles w) = playerX w"
  "gameOver (updateObstacles w) = gameOver w"
  "moveLeftKey (updateObstacles w) = moveLeftKey w"
  "moveRightKey (updateObstacles w) = moveRightKey w"
  "out (updateObstacles w) = out w"
  by (simp_all add: updateObstacles_def spawn_cases updateObstacles_advance_def Let_def)

lemma advance_score:
  "score (updateObstacles_advance w) =
     score w + (if obstacles w \<noteq> [] \<and> y (hd (obstacles w)) + 1 > SCREEN_HEIGHT then 10 else 0)"
  by (cases "obstacles w") (simp_all add: updateObstacles_advance_def Let_def)

lemma spawn_score [simp]: "score (updateObstacles_spawn w) = score w"
  by (simp add: spawn_cases)

lemma updateObstacles_score:
  "score (updateObstacles w) =
     score w + (if obstacles w \<noteq> [] \<and> y (hd (obstacles w)) + 1 > SCREEN_HEIGHT then 10 else 0)"
  by (simp add: updateObstacles_def advance_score)

lemma gameLoop_tick_frame [simp]:
  "playerX (snd (gameLoop_tick d l t w)) = playerX w"
  "moveLeftKey (snd (gameLoop_tick d l t w)) = moveLeftKey w"
  "moveRightKey (snd (gameLoop_tick d l t w)) = moveRightKey w"
  "out (snd (gameLoop_tick d l t w)) = out w"
  by (simp_all add: gameLoop_tick_def Let_def)

lemma gameLoop_tick_keeps_flag: "gameOver w \<Longrightarrow> gameOver (snd (gameLoop_tick d l t w))"
  by (simp add: gameLoop_tick_def Let_def checkCollision_keeps_flag)

lemma gameLoop_body_unfold:
  "gameLoop_body d (l, w) =
     (let inp = getInputSequence w;
          w2 = gameLoop_input (fst inp) (snd inp);
          tk = gameLoop_tick d l (clock_src w (clock_pos w)) (snd (steady_clock_now w2))
      in (fst tk, sleep_for 1 (draw (snd tk))))"
  by (simp add: gameLoop_body_def Let_def split_def)

subsection \<open>The player's column\<close>

lemma gameLoop_input_playerX:
  "2 \<le> playerX w \<and> playerX w \<le> TRACK_WIDTH + 1 \<Longrightarrow>
   2 \<le> playerX (gameLoop_input k w) \<and> playerX (gameLoop_input k w) \<le> TRACK_WIDTH + 1"
  by (simp add: gameLoop_input_def)

lemma gameLoop_body_playerX:
  "playerX (snd (gameLoop_body d (l, w))) = playerX (gameLoop_input (fst (getInputSequence w)) w)"
proof -
  have "playerX (gameLoop_input k (snd (getInputSequence w))) = playerX (gameLoop_input k w)" for k
    by (simp add: gameLoop_input_def)
  then show ?thesis
    by (simp add: gameLoop_body_unfold Let_def)
qed

lemma gameLoop_step_playerX:
  assumes "2 \<le> playerX (snd lw) \<and> playerX (snd lw) \<le> TRACK_WIDTH + 1"
  shows "2 \<le> playerX (snd (gameLoop_step d lw)) \<and> playerX (snd (gameLoop_step d lw)) \<le> TRACK_WIDTH + 1"
proof (cases lw)
  case (Pair l w)
  then show ?thesis
    using assms gameLoop_input_playerX [of w]
    by (simp add: gameLoop_step_def gameLoop_body_playerX)
qed

lemma gameLoop_run_playerX:
  "2 \<le> playerX (snd lw) \<and> playerX (snd lw) \<le> TRACK_WIDTH + 1 \<Longrightarrow>
   2 \<le> playerX (snd (gameLoop_run n d lw)) \<and> playerX (snd (gameLoop_run n d lw)) \<le> TRACK_WIDTH + 1"
  by (induction n) (simp_all add: gameLoop_run_def gameLoop_step_playerX)

lemma gameLoop_init_fields:
  "playerX (snd (snd (gameLoop_init w))) = START_PLAYER_X"
  "score (snd (snd (gameLoop_init w))) = 0"
  "obstacles (snd (snd (gameLoop_init w))) = []"
  "gameOver (snd (snd (gameLoop_init w))) = False"
  by (simp_all add: gameLoop_init_def Let_def split_def hideCursor_def cout_def)

text \<open>
  Claim C3.  In every state of a run of the game loop, whatever is typed, the player's
  column is between 2 and \<open>TRACK_WIDTH + 1 = 21\<close>, and one iteration keeps it there.
  A left move (the key read is the left binding) at column 2 changes nothing, and
  elsewhere takes the column down by exactly one; a right move (the key read is the
  right binding and not the left one) at column 21 changes nothing, and elsewhere takes
  the column up by exactly one.
\<close>

theorem player_column_bounds:
  "(2 \<le> playerX (snd (gameLoop_run n (fst (gameLoop_init w0)) (snd (gameLoop_init w0)))) \<and>
    playerX (snd (gameLoop_run n (fst (gameLoop_init w0)) (snd (gameLoop_init w0)))) \<le> TRACK_WIDTH + 1) \<and>
   (2 \<le> playerX w \<and> playerX w \<le> TRACK_WIDTH + 1 \<longrightarrow>
      2 \<le> playerX (snd (gameLoop_body d (l, w))) \<and>
      playerX (snd (gameLoop_body d (l, w))) \<le> TRACK_WIDTH + 1) \<and>
   (input \<noteq> [] \<and> input = moveLeftKey w \<and> 2 \<le> playerX w \<longrightarrow>
      gameLoop_input input w = (if playerX w = 2 then w else w\<lparr>playerX := playerX w - 1\<rparr>)) \<and>
   (input \<noteq> [] \<and> input \<noteq> moveLeftKey w \<and> input = moveRightKey w \<and>
    playerX w \<le> TRACK_WIDTH + 1 \<longrightarrow>
      gameLoop_input input w =
        (if playerX w = TRACK_WIDTH + 1 then w else w\<lparr>playerX := playerX w + 1\<rparr>)) \<and>
   TRACK_WIDTH + 1 = 21"
proof -
  have "2 \<le> playerX (snd (snd (gameLoop_init w0))) \<and>
        playerX (snd (snd (gameLoop_init w0))) \<le> TRACK_WIDTH + 1"
    by (simp add: gameLoop_init_fields START_PLAYER_X_def TRACK_WIDTH_def)
  then have a: "2 \<le> playerX (snd (gameLoop_run n (fst (gameLoop_init w0)) (snd (gameLoop_init w0)))) \<and>
    playerX (snd (gameLoop_run n (fst (gameLoop_init w0)) (snd (gameLoop_init w0)))) \<le> TRACK_WIDTH + 1"
    by (rule gameLoop_run_playerX)
  have b: "2 \<le> playerX w \<and> playerX w \<le> TRACK_WIDTH + 1 \<longrightarrow>
      2 \<le> playerX (snd (gameLoop_body d (l, w))) \<and>
      playerX (snd (gameLoop_body d (l, w))) \<le> TRACK_WIDTH + 1"
    using gameLoop_input_playerX [of w] by (simp add: gameLoop_body_playerX)
  have c: "input \<noteq> [] \<and> input = moveLeftKey w \<and> 2 \<le> playerX w \<longrightarrow>
      gameLoop_input input w = (if playerX w = 2 then w else w\<lparr>playerX := playerX w - 1\<rparr>)"
    by (auto simp: gameLoop_input_def)
  have d: "input \<noteq> [] \<and> input \<noteq> moveLeftKey w \<and> input = moveRightKey w \<and>
    playerX w \<le> TRACK_WIDTH + 1 \<longrightarrow>
      gameLoop_input input w =
        (if playerX w = TRACK_WIDTH + 1 then w else w\<lparr>playerX := playerX w + 1\<rparr>)"
    by (auto simp: gameLoop_input_def)
  have e: "TRACK_WIDTH + 1 = 21"
    by (simp add: TRACK_WIDTH_def)
  from a b c d e show ?thesis by blast
qed

theorem player_column_bounds_witness:
  "gameLoop_input ''a'' (initial_world\<lparr>playerX := 2\<rparr>) = initial_world\<lparr>playerX := 2\<rparr> \<and>
   gameLoop_input ''a'' (initial_world\<lparr>playerX := 3\<rparr>) = initial_world\<lparr>playerX := 2\<rparr> \<and>
   gameLoop_input ''d'' (initial_world\<lparr>playerX := 21\<rparr>) = initial_world\<lparr>playerX := 21\<rparr> \<and>
   gameLoop_input ''d'' (initial_world\<lparr>playerX := 20\<rparr>) = initial_world\<lparr>playerX := 21\<rparr> \<and>
   2 \<le> playerX (snd (gameLoop_body 100 (0, initial_world\<lparr>playerX := 2\<rparr>)))"
proof -
  have k: "moveLeftKey (initial_world\<lparr>playerX := p\<rparr>) = ''a'' \<and>
           moveRightKey (initial_world\<lparr>playerX := p\<rparr>) = ''d''" for p
    by (simp add: initial_world_def)
  show ?thesis
    using player_column_bounds [where w = "initial_world\<lparr>playerX := 2\<rparr>" and input = "''a''"
            and n = 0 and ?w0.0 = initial_world and d = 100 and l = 0]
          player_column_bounds [where w = "initial_world\<lparr>playerX := 3\<rparr>" and input = "''a''"
            and n = 0 and ?w0.0 = initial_world and d = 100 and l = 0]
          player_column_bounds [where w = "initial_world\<lparr>playerX := 21\<rparr>" and input = "''d''"
            and n = 0 and ?w0.0 = initial_world and d = 100 and l = 0]
          player_column_bounds [where w = "initial_world\<lparr>playerX := 20\<rparr>" and input = "''d''"
            and n = 0 and ?w0.0 = initial_world and d = 100 and l = 0]
    by (simp add: k TRACK_WIDTH_def)
qed

subsection \<open>Bindings and quit keys\<close>

text \<open>
  Claim C10.  The key read is compared with the left binding first, then with the right
  binding, and with the quit tokens \<^verbatim>\<open>q\<close>, \<^verbatim>\<open>Q\<close> and Ctrl-C (byte 3) only when it
  is neither.  So a key that equals a binding moves the player, clamped to the track,
  and leaves the game-over flag as it was, also when the binding is one of the quit
  tokens; and the input handling sets the flag exactly when the key is neither binding
  and is one of the three tokens.
\<close>

theorem bindings_before_quit:
  "(input \<noteq> [] \<and> input = moveLeftKey w \<longrightarrow>
      gameLoop_input input w =
        w\<lparr>playerX := (if playerX w > 2 then playerX w - 1 else playerX w)\<rparr> \<and>
      gameOver (gameLoop_input input w) = gameOver w) \<and>
   (input \<noteq> [] \<and> input \<noteq> moveLeftKey w \<and> input = moveRightKey w \<longrightarrow>
      gameLoop_input input w =
        w\<lparr>playerX := (if playerX w < TRACK_WIDTH + 1 then playerX w + 1 else playerX w)\<rparr> \<and>
      gameOver (gameLoop_input input w) = gameOver w) \<and>
   (gameOver (gameLoop_input input w) \<longleftrightarrow>
      gameOver w \<or>
      (input \<noteq> moveLeftKey w \<and> input \<noteq> moveRightKey w \<and>
       (input = ''q'' \<or> input = ''Q'' \<or> input = [CHR 0x03])))"
  by (auto simp: gameLoop_input_def)

theorem bindings_before_quit_witness:
  "gameLoop_input ''q'' (initial_world\<lparr>moveLeftKey := ''q''\<rparr>) =
     initial_world\<lparr>moveLeftKey := ''q'', playerX := 10\<rparr> \<and>
   \<not> gameOver (gameLoop_input ''q'' (initial_world\<lparr>moveLeftKey := ''q''\<rparr>)) \<and>
   gameLoop_input [CHR 0x03] (initial_world\<lparr>moveRightKey := [CHR 0x03]\<rparr>) =
     initial_world\<lparr>moveRightKey := [CHR 0x03], playerX := 12\<rparr> \<and>
   \<not> gameOver (gameLoop_input [CHR 0x03] (initial_world\<lparr>moveRightKey := [CHR 0x03]\<rparr>)) \<and>
   gameOver (gameLoop_input ''Q'' initial_world)"
proof -
  have k: "moveLeftKey initial_world = ''a'' \<and> moveRightKey initial_world = ''d'' \<and>
           playerX initial_world = 11 \<and> \<not> gameOver initial_world"
    by (simp add: initial_world_def START_PLAYER_X_def TRACK_WIDTH_def)
  show ?thesis
    using bindings_before_quit [of "''q''" "initial_world\<lparr>moveLeftKey := ''q''\<rparr>"]
          bindings_before_quit [of "[CHR 0x03]" "initial_world\<lparr>moveRightKey := [CHR 0x03]\<rparr>"]
          bindings_before_quit [of "''Q''" initial_world]
    by (simp add: k TRACK_WIDTH_def)
qed

subsection \<open>The score\<close>

lemma gameLoop_tick_score:
  "score (snd (gameLoop_tick d l t w)) =
     score w + (if duration_cast_ms (t - l) \<ge> d \<and> obstacles w \<noteq> [] \<and>
                   y (hd (obstacles w)) + 1 > SCREEN_HEIGHT then 10 else 0)"
  by (simp add: gameLoop_tick_def Let_def updateObstacles_score)

lemma gameLoop_body_score:
  "score (snd (gameLoop_body d (l, w))) =
     score w + (if duration_cast_ms (clock_src w (clock_pos w) - l) \<ge> d \<and> obstacles w \<noteq> [] \<and>
                   y (hd (obstacles w)) + 1 > SCREEN_HEIGHT then 10 else 0)"
  by (simp add: gameLoop_body_unfold Let_def gameLoop_tick_score)

lemma gameLoop_step_score: "score (snd lw) \<le> score (snd (gameLoop_step d lw))"
  by (cases lw) (simp add: gameLoop_step_def gameLoop_body_score)

lemma gameLoop_run_add:
  "gameLoop_run (n + k) d lw = gameLoop_run k d (gameLoop_run n d lw)"
  by (simp add: gameLoop_run_def funpow_add add.commute)

lemma gameLoop_run_score: "score (snd lw) \<le> score (snd (gameLoop_run k d lw))"
proof (induction k)
  case 0
  then show ?case by (simp add: gameLoop_run_def)
next
  case (Suc k)
  have "score (snd (gameLoop_run k d lw)) \<le> score (snd (gameLoop_step d (gameLoop_run k d lw)))"
    by (rule gameLoop_step_score)
  then show ?case using Suc by (simp add: gameLoop_run_def)
qed

text \<open>
  Claim C4.  \<^verbatim>\<open>gameLoop\<close> starts with score 0.  Along a run the score never goes
  down, so it is never negative.  A tick adds 10 for each obstacle the advance step
  removes, which is none or one, and nothing otherwise; a whole iteration adds 10 when
  its tick is due and clears an obstacle, and nothing otherwise.  Reading a key,
  handling it, reading the clock, spawning, the collision check, drawing and sleeping
  leave the score alone.
\<close>

theorem score_monotone:
  "score (snd (snd (gameLoop_init w0))) = 0 \<and>
   (n \<le> m \<longrightarrow> score (snd (gameLoop_run n d lw)) \<le> score (snd (gameLoop_run m d lw))) \<and>
   0 \<le> score (snd (gameLoop_run n (fst (gameLoop_init w0)) (snd (gameLoop_init w0)))) \<and>
   score (updateObstacles w) =
     score w + 10 * int (length (obstacles w) - length (obstacles (updateObstacles_advance w))) \<and>
   score (snd (gameLoop_body d (l, w))) =
     score w + (if duration_cast_ms (clock_src w (clock_pos w) - l) \<ge> d \<and> obstacles w \<noteq> [] \<and>
                   y (hd (obstacles w)) + 1 > SCREEN_HEIGHT then 10 else 0) \<and>
   score (snd (getInputSequence w)) = score w \<and>
   score (gameLoop_input input w) = score w \<and>
   score (snd (steady_clock_now w)) = score w \<and>
   score (updateObstacles_spawn w) = score w \<and>
   score (checkCollision w) = score w \<and>
   score (draw w) = score w \<and>
   score (sleep_for ms w) = score w"
proof -
  have a: "score (snd (snd (gameLoop_init w0))) = 0"
    by (simp add: gameLoop_init_fields)
  have b: "n \<le> m \<longrightarrow> score (snd (gameLoop_run n d lw)) \<le> score (snd (gameLoop_run m d lw))"
  proof
    assume "n \<le> m"
    then obtain k where "m = n + k" using le_Suc_ex by blast
    then show "score (snd (gameLoop_run n d lw)) \<le> score (snd (gameLoop_run m d lw))"
      by (simp add: gameLoop_run_add gameLoop_run_score)
  qed
  have c: "0 \<le> score (snd (gameLoop_run n (fst (gameLoop_init w0)) (snd (gameLoop_init w0))))"
    using gameLoop_run_score [of "snd (gameLoop_init w0)" n "fst (gameLoop_init w0)"] a by simp
  have e: "score (updateObstacles w) =
     score w + 10 * int (length (obstacles w) - length (obstacles (updateObstacles_advance w)))"
    by (cases "obstacles w") (simp_all add: updateObstacles_score advance_obstacles)
  from a b c e show ?thesis
    by (simp add: gameLoop_body_score)
qed

theorem score_monotone_witness:
  "score (updateObstacles (initial_world\<lparr>obstacles := [\<lparr>x = 5, y = 20\<rparr>, \<lparr>x = 6, y = 18\<rparr>]\<rparr>)) = 10 \<and>
   score (snd (gameLoop_run 0 100 (0, initial_world))) \<le> score (snd (gameLoop_run 1 100 (0, initial_world)))"
  using score_monotone [where w = "initial_world\<lparr>obstacles := [\<lparr>x = 5, y = 20\<rparr>, \<lparr>x = 6, y = 18\<rparr>]\<rparr>"
          and n = 0 and m = 1 and d = 100 and lw = "(0, initial_world)" and ?w0.0 = initial_world
          and l = 0 and input = "[]" and ms = 0]
  by (simp add: initial_world_def advance_obstacles SCREEN_HEIGHT_def)

subsection \<open>An iteration that reads a quit key\<close>

lemma advance_rand [simp]:
  "rand_src (updateObstacles_advance w) = rand_src w"
  "rand_pos (updateObstacles_advance w) = rand_pos w"
  by (simp_all add: updateObstacles_advance_def Let_def)

lemma updateObstacles_obstacles_cong:
  assumes "obstacles w1 = obstacles w" "rand_src w1 = rand_src w" "rand_pos w1 = rand_pos w"
  shows "obstacles (updateObstacles w1) = obstacles (updateObstacles w)"
proof -
  have "obstacles (updateObstacles_advance w1) = obstacles (updateObstacles_advance w)"
    using assms by (simp add: advance_obstacles)
  then show ?thesis
    using assms by (simp add: updateObstacles_def spawn_cases)
qed

lemma gameLoop_body_obstacles:
  "obstacles (snd (gameLoop_body d (l, w))) =
     (if duration_cast_ms (clock_src w (clock_pos w) - l) \<ge> d
      then obstacles (updateObstacles w) else obstacles w)"
proof -
  let ?w3 = "snd (steady_clock_now (gameLoop_input (fst (getInputSequence w)) (snd (getInputSequence w))))"
  have "obstacles (updateObstacles ?w3) = obstacles (updateObstacles w)"
    by (rule updateObstacles_obstacles_cong) simp_all
  then show ?thesis
    by (simp add: gameLoop_body_unfold Let_def gameLoop_tick_def)
qed

lemma gameLoop_body_out: "length (out w) < length (out (snd (gameLoop_body d (l, w))))"
  using draw_out_grows [of "snd (gameLoop_tick d l (clock_src w (clock_pos w))
      (snd (steady_clock_now (gameLoop_input (fst (getInputSequence w)) (snd (getInputSequence w))))))"]
  by (simp add: gameLoop_body_unfold Let_def)

lemma gameLoop_body_keeps_flag:
  "gameOver (gameLoop_input (fst (getInputSequence w)) (snd (getInputSequence w))) \<Longrightarrow>
   gameOver (snd (gameLoop_body d (l, w)))"
  by (simp add: gameLoop_body_unfold Let_def gameLoop_tick_keeps_flag)

text \<open>
  Claim C5, as amended.  When the key read is a quit token and neither binding, the
  input handling sets the game-over flag at once, and the iteration then runs to its
  end as any other: if the tick is due, the field and the score are those that
  \<^verbatim>\<open>updateObstacles\<close> gives (otherwise they are unchanged), a frame is written to the
  terminal, and the flag is still set when the iteration is over, so that the loop
  makes no further iteration.
\<close>

theorem quit_finishes_iteration:
  fixes w :: world and d l :: int
  assumes "fst (getInputSequence w) = input"
    and "input = ''q'' \<or> input = ''Q'' \<or> input = [CHR 0x03]"
    and "input \<noteq> moveLeftKey w" and "input \<noteq> moveRightKey w"
  defines "due \<equiv> duration_cast_ms (clock_src w (clock_pos w) - l) \<ge> d"
    and "w' \<equiv> snd (gameLoop_body d (l, w))"
  shows "gameLoop_input input (snd (getInputSequence w)) = (snd (getInputSequence w))\<lparr>gameOver := True\<rparr> \<and>
         gameOver w' \<and>
         obstacles w' = (if due then obstacles (updateObstacles w) else obstacles w) \<and>
         score w' = (if due then score (updateObstacles w) else score w) \<and>
         length (out w) < length (out w') \<and>
         gameLoop_step d (gameLoop_body d (l, w)) = gameLoop_body d (l, w)"
proof -
  have ne: "input \<noteq> []" using assms(2) by auto
  have a: "gameLoop_input input (snd (getInputSequence w)) = (snd (getInputSequence w))\<lparr>gameOver := True\<rparr>"
    using assms(2-4) ne by (simp add: gameLoop_input_def)
  have b: "gameOver w'"
    unfolding w'_def by (rule gameLoop_body_keeps_flag) (simp add: assms(1) a)
  have c: "obstacles w' = (if due then obstacles (updateObstacles w) else obstacles w)"
    unfolding w'_def due_def by (rule gameLoop_body_obstacles)
  have e: "score w' = (if due then score (updateObstacles w) else score w)"
    unfolding w'_def due_def by (simp add: gameLoop_body_score updateObstacles_score)
  have f: "length (out w) < length (out w')"
    unfolding w'_def by (rule gameLoop_body_out)
  have g: "gameLoop_step d (gameLoop_body d (l, w)) = gameLoop_body d (l, w)"
    using b unfolding w'_def by (simp add: gameLoop_step_def)
  from a b c e f g show ?thesis by blast
qed

lemma quit_world_init:
  "gameLoop_init quit_world =
     (100, 0, quit_world\<lparr>out := CLEAR_SCREEN @ [ESC] @ ''[?25l'', clock_pos := 1\<rparr>)"
  by (simp add: gameLoop_init_def quit_world_def initial_world_def Let_def hideCursor_def cout_def
      steady_clock_now_def START_PLAYER_X_def TRACK_WIDTH_def)


lemma quit_world_key:
  "getInputSequence (quit_world\<lparr>out := s, clock_pos := p\<rparr>) =
     (''q'', quit_world\<lparr>out := s, clock_pos := p, tty_buf := []\<rparr>)"
  by (simp add: getInputSequence_def quit_world_def initial_world_def Let_def ESC_def)

lemma quit_world_fields:
  "obstacles (quit_world\<lparr>out := s, clock_pos := p\<rparr>) = []"
  "moveLeftKey (quit_world\<lparr>out := s, clock_pos := p\<rparr>) = ''a''"
  "moveRightKey (quit_world\<lparr>out := s, clock_pos := p\<rparr>) = ''d''"
  "gameOver (quit_world\<lparr>out := s, clock_pos := p\<rparr>) = False"
  "clock_src quit_world n = int n * 200000000"
  "obstacles quit_world = []"
  "moveLeftKey quit_world = ''a''"
  "moveRightKey quit_world = ''d''"
  "obstacles (updateObstacles (quit_world\<lparr>out := s, clock_pos := p\<rparr>)) = [\<lparr>x = 2, y = 1\<rparr>]"
  by (simp_all add: quit_world_def initial_world_def updateObstacles_def spawn_cases
      updateObstacles_advance_def TRACK_WIDTH_def)

lemma saveHighestScore_frame [simp]:
  "obstacles (saveHighestScore w) = obstacles w"
  "playerX (saveHighestScore w) = playerX w"
  "score (saveHighestScore w) = score w"
  "gameOver (saveHighestScore w) = gameOver w"
  "out (saveHighestScore w) = out w"
  by (simp_all add: saveHighestScore_def Let_def)

lemma gameLoop_quit_world:
  "map_option obstacles (gameLoop 1 quit_world) = Some [\<lparr>x = 2, y = 1\<rparr>]"
proof -
  define W where "W = quit_world\<lparr>out := CLEAR_SCREEN @ [ESC] @ ''[?25l'', clock_pos := 1\<rparr>"
  have init: "gameLoop_init quit_world = (100, 0, W)"
    unfolding W_def by (rule quit_world_init)
  have key: "getInputSequence W = (''q'', W\<lparr>tty_buf := []\<rparr>)"
    unfolding W_def by (rule quit_world_key)
  have fields: "obstacles W = []" "moveLeftKey W = ''a''" "moveRightKey W = ''d''"
    "clock_src W (clock_pos W) = 200000000" "\<not> gameOver W"
    "obstacles (updateObstacles W) = [\<lparr>x = 2, y = 1\<rparr>]"
    unfolding W_def by (simp_all add: quit_world_fields)
  have obs: "obstacles (snd (gameLoop_body 100 (0, W))) = [\<lparr>x = 2, y = 1\<rparr>]"
    by (simp add: gameLoop_body_obstacles fields duration_cast_ms_def)
  have "gameOver (gameLoop_input (fst (getInputSequence W)) (snd (getInputSequence W)))"
    by (simp add: key gameLoop_input_def fields)
  then have over: "gameOver (snd (gameLoop_body 100 (0, W)))"
    by (rule gameLoop_body_keeps_flag)
  have run: "gameLoop_run (Suc 0) 100 (0, W) = gameLoop_body 100 (0, W)"
    by (simp add: gameLoop_run_def gameLoop_step_def fields)
  show ?thesis
    by (simp add: gameLoop_def init run split_def Let_def over obs)
qed

text \<open>
  Claim C5 as stated fails.  In the first iteration of a game started in
  \<open>quit_world\<close> the key read is \<^verbatim>\<open>q\<close>, which is neither binding; yet the tick runs
  (the field, empty before, holds a new obstacle afterwards) and a frame is drawn (the
  output grows), so the iteration has done more than setting the flag.  The whole
  \<^verbatim>\<open>gameLoop\<close> returns after this one iteration, with the spawned obstacle in the
  field.
\<close>

theorem quit_skips_rest_counterexample:
  "fst (getInputSequence (snd (snd (gameLoop_init quit_world)))) = ''q'' \<and>
   ''q'' \<noteq> moveLeftKey (snd (snd (gameLoop_init quit_world))) \<and>
   ''q'' \<noteq> moveRightKey (snd (snd (gameLoop_init quit_world))) \<and>
   obstacles (snd (snd (gameLoop_init quit_world))) = [] \<and>
   obstacles (snd (gameLoop_body (fst (gameLoop_init quit_world)) (snd (gameLoop_init quit_world)))) =
     [\<lparr>x = 2, y = 1\<rparr>] \<and>
   length (out (snd (snd (gameLoop_init quit_world)))) <
     length (out (snd (gameLoop_body (fst (gameLoop_init quit_world)) (snd (gameLoop_init quit_world))))) \<and>
   snd (gameLoop_body (fst (gameLoop_init quit_world)) (snd (gameLoop_init quit_world))) \<noteq>
     (snd (getInputSequence (snd (snd (gameLoop_init quit_world)))))\<lparr>gameOver := True\<rparr> \<and>
   map_option obstacles (gameLoop 1 quit_world) = Some [\<lparr>x = 2, y = 1\<rparr>]"
proof -
  define W where "W = quit_world\<lparr>out := CLEAR_SCREEN @ [ESC] @ ''[?25l'', clock_pos := 1\<rparr>"
  have init: "gameLoop_init quit_world = (100, 0, W)"
    unfolding W_def by (rule quit_world_init)
  have key: "getInputSequence W = (''q'', W\<lparr>tty_buf := []\<rparr>)"
    unfolding W_def by (rule quit_world_key)
  have fields: "obstacles W = []" "moveLeftKey W = ''a''" "moveRightKey W = ''d''"
    "clock_src W (clock_pos W) = 200000000"
    "obstacles (updateObstacles W) = [\<lparr>x = 2, y = 1\<rparr>]"
    unfolding W_def by (simp_all add: quit_world_fields)
  have obs: "obstacles (snd (gameLoop_body 100 (0, W))) = [\<lparr>x = 2, y = 1\<rparr>]"
    by (simp add: gameLoop_body_obstacles fields duration_cast_ms_def)
  have grows: "length (out W) < length (out (snd (gameLoop_body 100 (0, W))))"
    by (rule gameLoop_body_out)
  have "obstacles ((snd (getInputSequence W))\<lparr>gameOver := True\<rparr>) = []"
    by (simp add: fields)
  then have diff: "snd (gameLoop_body 100 (0, W)) \<noteq> (snd (getInputSequence W))\<lparr>gameOver := True\<rparr>"
    using obs by auto
  have "fst (getInputSequence W) = ''q''"
    by (simp add: key)
  then show ?thesis
    unfolding init using obs grows diff gameLoop_quit_world by (simp add: fields)
qed

theorem quit_finishes_iteration_witness:
  "gameOver (snd (gameLoop_body 100 (0, quit_world))) \<and>
   obstacles (snd (gameLoop_body 100 (0, quit_world))) = obstacles quit_world \<and>
   gameOver (snd (gameLoop_body 100 (-100000000, quit_world))) \<and>
   obstacles (snd (gameLoop_body 100 (-100000000, quit_world))) = [\<lparr>x = 2, y = 1\<rparr>]"
proof -
  have k: "fst (getInputSequence quit_world) = ''q''"
    by (simp add: getInputSequence_def quit_world_def initial_world_def Let_def ESC_def)
  have f: "''q'' \<noteq> moveLeftKey quit_world" "''q'' \<noteq> moveRightKey quit_world"
    "clock_src quit_world (clock_pos quit_world) = 0"
    "obstacles (updateObstacles quit_world) = [\<lparr>x = 2, y = 1\<rparr>]"
    by (simp_all add: quit_world_def initial_world_def updateObstacles_def spawn_cases
      updateObstacles_advance_def TRACK_WIDTH_def)
  show ?thesis
    using quit_finishes_iteration [OF k _ f(1) f(2), where l = 0 and d = 100]
          quit_finishes_iteration [OF k _ f(1) f(2), where l = "-100000000" and d = 100]
    by (simp add: f duration_cast_ms_def)
qed

subsection \<open>Reading a key takes bounded time\<close>

lemma wait_rounds_step: "waited < 100 \<Longrightarrow> wait_rounds waited = Suc (wait_rounds (waited + 8))"
  unfolding wait_rounds_def by (simp split: if_splits) linarith

lemma wait_rounds_0: "wait_rounds 0 = 13"
  by (simp add: wait_rounds_def)

lemma wait_sleeps:
  "sleeps w \<le> sleeps (snd (getInputSequence_wait t res w)) \<and>
   sleeps (snd (getInputSequence_wait t res w)) \<le> sleeps w + wait_rounds t \<and>
   (fst (getInputSequence_wait t res w) \<noteq> res \<longrightarrow>
      sleeps (snd (getInputSequence_wait t res w)) < sleeps w + wait_rounds t) \<and>
   slept_ms (snd (getInputSequence_wait t res w)) =
     slept_ms w + 8 * (sleeps (snd (getInputSequence_wait t res w)) - sleeps w)"
proof (induction t res w rule: getInputSequence_wait.induct)
  case (1 waited res w)
  show ?case
  proof (cases "waited < 100")
    case False
    then show ?thesis
      by (subst (1 2 3 4 5 6) getInputSequence_wait.simps) simp
  next
    case lt: True
    show ?thesis
    proof (cases "tty_buf w = []")
      case False
      then show ?thesis
        using lt by (subst (1 2 3 4 5 6) getInputSequence_wait.simps)
          (simp add: Let_def wait_rounds_step)
    next
      case True
      have unf: "getInputSequence_wait waited res w =
          getInputSequence_wait (waited + 8) res (sleep_for 8 w)"
        using lt True by (subst getInputSequence_wait.simps) simp
      have ih: "sleeps (sleep_for 8 w) \<le> sleeps (snd (getInputSequence_wait (waited + 8) res (sleep_for 8 w))) \<and>
         sleeps (snd (getInputSequence_wait (waited + 8) res (sleep_for 8 w)))
           \<le> sleeps (sleep_for 8 w) + wait_rounds (waited + 8) \<and>
         (fst (getInputSequence_wait (waited + 8) res (sleep_for 8 w)) \<noteq> res \<longrightarrow>
            sleeps (snd (getInputSequence_wait (waited + 8) res (sleep_for 8 w)))
              < sleeps (sleep_for 8 w) + wait_rounds (waited + 8)) \<and>
         slept_ms (snd (getInputSequence_wait (waited + 8) res (sleep_for 8 w))) =
           slept_ms (sleep_for 8 w) +
             8 * (sleeps (snd (getInputSequence_wait (waited + 8) res (sleep_for 8 w))) - sleeps (sleep_for 8 w))"
        using 1 lt True by simp
      have s: "sleeps (sleep_for 8 w) = Suc (sleeps w)" "slept_ms (sleep_for 8 w) = slept_ms w + 8"
        by (simp_all add: sleep_for_def)
      show ?thesis
        unfolding unf using ih unfolding s wait_rounds_step [OF lt] by auto
    qed
  qed
qed

lemma wait_alone:
  "tty_buf w = [] \<Longrightarrow> \<forall>k < wait_rounds t. tty_arrivals w (sleeps w + k) = [] \<Longrightarrow>
   getInputSequence_wait t res w =
     (res, w\<lparr>sleeps := sleeps w + wait_rounds t, slept_ms := slept_ms w + 8 * wait_rounds t\<rparr>)"
proof (induction t res w rule: getInputSequence_wait.induct)
  case (1 waited res w)
  show ?case
  proof (cases "waited < 100")
    case False
    then show ?thesis
      by (subst getInputSequence_wait.simps) (simp add: wait_rounds_def)
  next
    case lt: True
    have unf: "getInputSequence_wait waited res w =
        getInputSequence_wait (waited + 8) res (sleep_for 8 w)"
      using lt "1.prems"(1) by (subst getInputSequence_wait.simps) simp
    have r: "wait_rounds waited = Suc (wait_rounds (waited + 8))"
      by (rule wait_rounds_step [OF lt])
    have first: "tty_arrivals w (sleeps w) = []"
      using "1.prems"(2) r by (metis add.right_neutral zero_less_Suc)
    have buf: "tty_buf (sleep_for 8 w) = []"
      using "1.prems"(1) first by (simp add: sleep_for_def)
    have later: "\<forall>k < wait_rounds (waited + 8). tty_arrivals (sleep_for 8 w) (sleeps (sleep_for 8 w) + k) = []"
    proof (intro allI impI)
      fix k assume "k < wait_rounds (waited + 8)"
      then have "Suc k < wait_rounds waited" using r by simp
      then have "tty_arrivals w (sleeps w + Suc k) = []" using "1.prems"(2) by blast
      then show "tty_arrivals (sleep_for 8 w) (sleeps (sleep_for 8 w) + k) = []"
        by (simp add: sleep_for_def)
    qed
    have "getInputSequence_wait (waited + 8) res (sleep_for 8 w) =
        (res, (sleep_for 8 w)\<lparr>sleeps := sleeps (sleep_for 8 w) + wait_rounds (waited + 8),
                slept_ms := slept_ms (sleep_for 8 w) + 8 * wait_rounds (waited + 8)\<rparr>)"
      using "1.IH" lt "1.prems"(1) buf later by simp
    then show ?thesis
      unfolding unf r using "1.prems"(1) first by (simp add: sleep_for_def)
  qed
qed

lemma keyToDisplay_ESC: "keyToDisplay [ESC] = ''SEQ(0x1B )''"
  by code_simp


lemma getInputSequence_cases:
  "getInputSequence w =
     (if tty_buf w = [] then ([], w)
      else if hd (tty_buf w) = ESC
      then getInputSequence_wait 0 [ESC] (w\<lparr>tty_buf := tl (tty_buf w)\<rparr>)
      else ([hd (tty_buf w)], w\<lparr>tty_buf := tl (tty_buf w)\<rparr>))"
  by (simp add: getInputSequence_def Let_def)

text \<open>
  Claim C8.  \<^verbatim>\<open>getInputSequence\<close> is a total function: its only loop counts
  \<open>waited\<close> up by 8 towards 100 (the termination proof of
  \<open>getInputSequence_wait\<close>).  Whatever is typed, and whenever, one call sleeps at
  most 13 times, 8 ms each, so at most 104 ms; and when it returns more than one byte,
  the loop was left by its \<^verbatim>\<open>break\<close> after at most 12 sleeps, so in its 13th round at
  the latest.  When the only pending byte is an escape byte and nothing arrives during
  the next 13 sleeps, the loop makes exactly 13 rounds and the call returns that byte
  alone, which \<^verbatim>\<open>keyToDisplay\<close> shows as \<^verbatim>\<open>SEQ(0x1B )\<close>.
\<close>

theorem getInputSequence_bounded:
  fixes w :: world
  defines "res \<equiv> fst (getInputSequence w)" and "w' \<equiv> snd (getInputSequence w)"
  shows "sleeps w \<le> sleeps w' \<and> sleeps w' \<le> sleeps w + 13 \<and>
         slept_ms w' = slept_ms w + 8 * (sleeps w' - sleeps w) \<and>
         slept_ms w' \<le> slept_ms w + 104 \<and>
         (length res > 1 \<longrightarrow> sleeps w' \<le> sleeps w + 12) \<and>
         (tty_buf w = [ESC] \<and> (\<forall>k < 13. tty_arrivals w (sleeps w + k) = []) \<longrightarrow>
            res = [ESC] \<and> sleeps w' = sleeps w + 13 \<and> slept_ms w' = slept_ms w + 104 \<and>
            tty_buf w' = [] \<and> keyToDisplay res = ''SEQ(0x1B )'')"
proof -
  let ?w1 = "w\<lparr>tty_buf := tl (tty_buf w)\<rparr>"
  have a: "sleeps w \<le> sleeps w' \<and> sleeps w' \<le> sleeps w + 13 \<and>
         slept_ms w' = slept_ms w + 8 * (sleeps w' - sleeps w) \<and>
         (length res > 1 \<longrightarrow> sleeps w' \<le> sleeps w + 12)"
  proof (cases "tty_buf w \<noteq> [] \<and> hd (tty_buf w) = ESC")
    case True
    then have eq: "getInputSequence w = getInputSequence_wait 0 [ESC] ?w1"
      by (simp add: getInputSequence_cases)
    have "length res > 1 \<longrightarrow> fst (getInputSequence_wait 0 [ESC] ?w1) \<noteq> [ESC]"
      unfolding res_def eq by auto
    then show ?thesis
      using wait_sleeps [of ?w1 0 "[ESC]"] unfolding res_def w'_def eq
      by (auto simp: wait_rounds_0)
  next
    case False
    then show ?thesis
      unfolding res_def w'_def by (auto simp: getInputSequence_cases)
  qed
  then have b: "slept_ms w' \<le> slept_ms w + 104"
    by linarith
  have c: "res = [ESC] \<and> sleeps w' = sleeps w + 13 \<and> slept_ms w' = slept_ms w + 104 \<and>
            tty_buf w' = [] \<and> keyToDisplay res = ''SEQ(0x1B )''"
    if lone: "tty_buf w = [ESC]" and quiet: "\<forall>k < 13. tty_arrivals w (sleeps w + k) = []"
  proof -
    have eq: "getInputSequence w = getInputSequence_wait 0 [ESC] ?w1"
      using lone by (simp add: getInputSequence_cases)
    have "getInputSequence_wait 0 [ESC] ?w1 =
        ([ESC], ?w1\<lparr>sleeps := sleeps ?w1 + wait_rounds 0, slept_ms := slept_ms ?w1 + 8 * wait_rounds 0\<rparr>)"
      by (rule wait_alone) (use lone quiet in \<open>simp_all add: wait_rounds_0\<close>)
    then show ?thesis
      unfolding res_def w'_def eq using lone by (simp add: wait_rounds_0 keyToDisplay_ESC)
  qed
  from a b c show ?thesis by blast
qed

theorem getInputSequence_bounded_witness:
  "fst (getInputSequence (initial_world\<lparr>tty_buf := [ESC]\<rparr>)) = [ESC] \<and>
   sleeps (snd (getInputSequence (initial_world\<lparr>tty_buf := [ESC]\<rparr>))) = 13 \<and>
   slept_ms (snd (getInputSequence (initial_world\<lparr>tty_buf := [ESC]\<rparr>))) = 104 \<and>
   keyToDisplay (fst (getInputSequence (initial_world\<lparr>tty_buf := [ESC]\<rparr>))) = ''SEQ(0x1B )''"
proof -
  have f: "tty_arrivals initial_world k = []" "sleeps initial_world = 0"
    "slept_ms initial_world = 0" for k
    by (simp_all add: initial_world_def)
  show ?thesis
    using getInputSequence_bounded [of "initial_world\<lparr>tty_buf := [ESC]\<rparr>"]
    by (simp add: f keyToDisplay_ESC)
qed

subsection \<open>The high score file\<close>

lemma digit_char_code: "d < 10 \<Longrightarrow> (of_char (digit_char d) :: nat) = 48 + d"
  by (simp add: digit_char_def)

lemma isdigit_digit_char: "d < 10 \<Longrightarrow> isdigit (digit_char d)"
  by (simp add: isdigit_def digit_char_code)

lemma show_nat_digits: "show_nat n \<noteq> [] \<and> (\<forall>c\<in>set (show_nat n). isdigit c)"
proof (induction n rule: show_nat.induct)
  case (1 n)
  show ?case
  proof (cases "n < 10")
    case True
    then show ?thesis
      by (subst (1 2) show_nat.simps) (simp add: isdigit_digit_char)
  next
    case False
    then show ?thesis
      using 1 by (subst (1 2) show_nat.simps) (simp add: isdigit_digit_char)
  qed
qed

lemma digits_val_snoc: "digits_val (ds @ [c]) = 10 * digits_val ds + (of_char c - 48)"
  by (simp add: digits_val_def)

lemma digits_val_show_nat: "digits_val (show_nat n) = n"
proof (induction n rule: show_nat.induct)
  case (1 n)
  show ?case
  proof (cases "n < 10")
    case True
    then show ?thesis
      by (subst show_nat.simps) (simp add: digits_val_def digit_char_code)
  next
    case False
    then have "digits_val (show_nat (n div 10)) = n div 10"
      using 1 by simp
    then show ?thesis
      using False by (subst show_nat.simps) (simp add: digits_val_snoc digit_char_code)
  qed
qed

lemma isdigit_not_space: "isdigit c \<Longrightarrow> \<not> isspace c"
  by (auto simp: isdigit_def isspace_def)

lemma isdigit_not_sign: "isdigit c \<Longrightarrow> c \<noteq> CHR ''-'' \<and> c \<noteq> CHR ''+''"
  by (auto simp: isdigit_def)

lemma takeWhile_show_nat: "takeWhile isdigit (show_nat n) = show_nat n"
  using show_nat_digits [of n] by (simp add: takeWhile_eq_all_conv)

lemma hd_show_nat: "isdigit (hd (show_nat n))"
  using show_nat_digits [of n] by (cases "show_nat n") auto

lemma dropWhile_show_nat: "dropWhile isspace (show_nat n) = show_nat n"
  using hd_show_nat [of n] show_nat_digits [of n]
  by (cases "show_nat n") (auto simp: isdigit_not_space)

lemma extract_show_int:
  assumes "LLONG_MIN \<le> v" "v \<le> LLONG_MAX"
  shows "extract_ll (show_int v) cur = v"
proof (cases "v < 0")
  case True
  have sp: "\<not> isspace (CHR ''-'')" by (simp add: isspace_def)
  have "dropWhile isspace (show_int v) = CHR ''-'' # show_nat (nat (- v))"
    using True sp by (simp add: show_int_def)
  then show ?thesis
    using True assms show_nat_digits [of "nat (- v)"]
    by (simp add: extract_ll_def Let_def takeWhile_show_nat digits_val_show_nat)
next
  case False
  have d: "dropWhile isspace (show_int v) = show_nat (nat v)"
    using False by (simp add: show_int_def dropWhile_show_nat)
  have h: "hd (show_nat (nat v)) \<noteq> CHR ''-'' \<and> hd (show_nat (nat v)) \<noteq> CHR ''+''"
    using hd_show_nat isdigit_not_sign by blast
  show ?thesis
    using False assms show_nat_digits [of "nat v"] h
    by (simp add: extract_ll_def Let_def d takeWhile_show_nat digits_val_show_nat)
qed

text \<open>
  Claim C7, as amended.  When the score is not greater than the high score in memory,
  \<^verbatim>\<open>saveHighestScore\<close> changes nothing: no variable, and the file is not written.  When
  the score is greater, the high score in memory becomes the score.  If the file can be
  opened for writing, it then holds the score in decimal, and loading after the save, in
  the same process or in a new one (whatever \<open>h0\<close> the variable holds then), gives the
  score back, for every score a \<^verbatim>\<open>long long\<close> can hold.  If the file cannot be
  opened for writing, only the variable changes: the file is as before, and loading
  after the save gives what the old file yields, or the score when there is no file to
  read.
\<close>

theorem high_score_persistence:
  "(score w \<le> highestScore w \<longrightarrow> saveHighestScore w = w) \<and>
   (score w > highestScore w \<longrightarrow>
      highestScore (saveHighestScore w) = score w \<and>
      hs_file (saveHighestScore w) =
        (if hs_writable w then Some (show_int (score w)) else hs_file w)) \<and>
   (score w > highestScore w \<and> hs_writable w \<and> LLONG_MIN \<le> score w \<and> score w \<le> LLONG_MAX \<longrightarrow>
      highestScore (loadHighestScore (saveHighestScore w)) = score w \<and>
      highestScore (loadHighestScore ((saveHighestScore w)\<lparr>highestScore := h0\<rparr>)) = score w) \<and>
   (score w > highestScore w \<and> \<not> hs_writable w \<longrightarrow>
      saveHighestScore w = w\<lparr>highestScore := score w\<rparr> \<and>
      highestScore (loadHighestScore (saveHighestScore w)) =
        (case hs_file w of None \<Rightarrow> score w | Some content \<Rightarrow> extract_ll content (score w)))"
proof -
  have a: "score w \<le> highestScore w \<longrightarrow> saveHighestScore w = w"
    by (simp add: saveHighestScore_def)
  have b: "score w > highestScore w \<longrightarrow>
      highestScore (saveHighestScore w) = score w \<and>
      hs_file (saveHighestScore w) =
        (if hs_writable w then Some (show_int (score w)) else hs_file w)"
    by (simp add: saveHighestScore_def Let_def)
  have c: "highestScore (loadHighestScore (saveHighestScore w)) = score w \<and>
      highestScore (loadHighestScore ((saveHighestScore w)\<lparr>highestScore := h0\<rparr>)) = score w"
    if "score w > highestScore w \<and> hs_writable w \<and> LLONG_MIN \<le> score w \<and> score w \<le> LLONG_MAX"
    using that by (simp add: saveHighestScore_def Let_def loadHighestScore_def extract_show_int)
  have d: "saveHighestScore w = w\<lparr>highestScore := score w\<rparr> \<and>
      highestScore (loadHighestScore (saveHighestScore w)) =
        (case hs_file w of None \<Rightarrow> score w | Some content \<Rightarrow> extract_ll content (score w))"
    if "score w > highestScore w \<and> \<not> hs_writable w"
    using that by (simp add: saveHighestScore_def Let_def loadHighestScore_def split: option.splits)
  from a b c d show ?thesis by blast
qed

lemma readonly_world_fields:
  "score readonly_world = 120" "highestScore readonly_world = 50"
  "hs_file readonly_world = Some ''50''" "\<not> hs_writable readonly_world"
  by (simp_all add: readonly_world_def)

lemma extract_50: "extract_ll ''50'' 120 = 50"
  by code_simp

theorem high_score_persistence_witness:
  "saveHighestScore (initial_world\<lparr>score := 30, highestScore := 50\<rparr>) =
     initial_world\<lparr>score := 30, highestScore := 50\<rparr> \<and>
   highestScore (saveHighestScore (initial_world\<lparr>score := 120, highestScore := 50\<rparr>)) = 120 \<and>
   hs_file (saveHighestScore (initial_world\<lparr>score := 120, highestScore := 50\<rparr>)) = Some ''120'' \<and>
   highestScore (loadHighestScore
     ((saveHighestScore (initial_world\<lparr>score := 120, highestScore := 50\<rparr>))\<lparr>highestScore := 0\<rparr>)) = 120 \<and>
   saveHighestScore readonly_world = readonly_world\<lparr>highestScore := 120\<rparr> \<and>
   highestScore (loadHighestScore (saveHighestScore readonly_world)) = 50"
proof -
  have s: "show_int 120 = ''120''"
    by code_simp
  have f: "hs_writable initial_world" "hs_file initial_world = None"
    by (simp_all add: initial_world_def)
  have rw: "saveHighestScore (initial_world\<lparr>score := 30, highestScore := 50\<rparr>) =
     initial_world\<lparr>score := 30, highestScore := 50\<rparr> \<and>
   highestScore (saveHighestScore (initial_world\<lparr>score := 120, highestScore := 50\<rparr>)) = 120 \<and>
   hs_file (saveHighestScore (initial_world\<lparr>score := 120, highestScore := 50\<rparr>)) = Some ''120'' \<and>
   highestScore (loadHighestScore
     ((saveHighestScore (initial_world\<lparr>score := 120, highestScore := 50\<rparr>))\<lparr>highestScore := 0\<rparr>)) = 120"
    using high_score_persistence [of "initial_world\<lparr>score := 30, highestScore := 50\<rparr>" 0]
          high_score_persistence [of "initial_world\<lparr>score := 120, highestScore := 50\<rparr>" 0]
    by (simp add: s f LLONG_MIN_def LLONG_MAX_def)
  have prem: "score readonly_world > highestScore readonly_world \<and> \<not> hs_writable readonly_world"
    by (simp add: readonly_world_fields)
  have "saveHighestScore readonly_world = readonly_world\<lparr>highestScore := score readonly_world\<rparr> \<and>
      highestScore (loadHighestScore (saveHighestScore readonly_world)) =
        (case hs_file readonly_world of None \<Rightarrow> score readonly_world
         | Some content \<Rightarrow> extract_ll content (score readonly_world))"
    using high_score_persistence [of readonly_world 0] prem by blast
  then have ro: "saveHighestScore readonly_world = readonly_world\<lparr>highestScore := 120\<rparr> \<and>
   highestScore (loadHighestScore (saveHighestScore readonly_world)) = 50"
    unfolding readonly_world_fields(1,3) option.case extract_50 .
  from rw ro show ?thesis by blast
qed

text \<open>
  Claim C7 as stated fails.  In \<open>readonly_world\<close> the score, 120, is greater than the
  high score, 50.  Saving sets the variable to 120 but the file cannot be opened for
  writing and still holds \<^verbatim>\<open>50\<close>, so loading right after the save gives 50, not the
  score saved.
\<close>

theorem high_score_readonly_counterexample:
  "highestScore readonly_world < score readonly_world \<and>
   score readonly_world = 120 \<and>
   highestScore (saveHighestScore readonly_world) = 120 \<and>
   hs_file (saveHighestScore readonly_world) = Some ''50'' \<and>
   highestScore (loadHighestScore (saveHighestScore readonly_world)) = 50 \<and>
   highestScore (loadHighestScore (saveHighestScore readonly_world)) \<noteq> score readonly_world"
  by (simp add: saveHighestScore_def loadHighestScore_def Let_def readonly_world_fields extract_50)

subsection \<open>The field along a run of the game loop\<close>

text \<open>
  The well-spacing of the field also holds in every state a run of \<^verbatim>\<open>gameLoop\<close>
  goes through, since only the tick changes the field.  Hence rows and columns stay
  far inside the range of \<^verbatim>\<open>int\<close>.
\<close>

lemma field_ok_step:
  assumes "field_ok (obstacles (snd lw))"
  shows "field_ok (obstacles (snd (gameLoop_step d lw)))"
proof (cases lw)
  case (Pair l w)
  then show ?thesis
    using assms field_ok_updateObstacles [of w]
    by (simp add: gameLoop_step_def gameLoop_body_obstacles)
qed

lemma field_ok_run:
  "field_ok (obstacles (snd lw)) \<Longrightarrow> field_ok (obstacles (snd (gameLoop_run n d lw)))"
  by (induction n) (simp_all add: gameLoop_run_def field_ok_step)

lemma field_ok_rows:
  "field_ok (obstacles (snd (gameLoop_run n (fst (gameLoop_init w0)) (snd (gameLoop_init w0)))))"
  by (rule field_ok_run) (simp add: gameLoop_init_fields field_ok_def)

end
